theory Spec2Isabelle
  imports Main "HOL-Library.AList"
begin

section \<open>The host document\<close>

text \<open>
  The composables \<open>useScriptTag\<close> and \<open>useStyleTag\<close> work on a host document that is
  handed to them (\<open>options.document\<close>, by default the ambient one, \<open>undefined\<close> outside a
  browser). Element objects are addresses into a heap of elements; an element exists from
  \<open>createElement\<close> on, whether or not it is in the tree. The tree is kept as the child
  list of \<open>head\<close> and the list of the elements elsewhere in the document, both in tree
  order, so that a selector query reads \<open>head\<close> first.
\<close>

text \<open>The values a load promise is settled with: an element or a boolean.\<close>

datatype jsvalue = El nat | Bool bool

datatype error = NotFoundError | TypeError | SyntaxError

text \<open>
  What a promise is rejected with: an event object (its type and its target), or the
  exception that the executor of the promise threw.
\<close>

datatype reason = Event string nat | Thrown error

datatype pstate = Pending | Fulfilled jsvalue | Rejected reason

text \<open>
  The closures that \<open>loadScript\<close> registers as listeners, each with the promise whose
  \<open>resolve\<close>/\<open>reject\<close> it captured: \<open>event => reject(event)\<close> and the handler of
  the \<open>load\<close> event.
\<close>

datatype listener = Reject_handler nat | Load_handler nat

record element =
  localName :: string
  attributes :: "(string \<times> string) list"
  textContent :: string
  listeners :: "(string \<times> listener) list"

record tree =
  head :: "nat list"
  body :: "nat list"

text \<open>What a selector matches: a property of the elements of a tree.\<close>

type_synonym matcher = "(nat \<Rightarrow> element) \<Rightarrow> tree \<Rightarrow> nat \<Rightarrow> bool"

text \<open>
  \<open>selector_engine\<close> is what the browser makes of the selector \<open>script[src="v"]\<close> for
  a string \<open>v\<close> that does not stand for itself between the quotes: a syntax error, or
  whatever the text then matches. The model leaves it open; it is part of the document
  that is handed to a loader.
\<close>

record dom =
  document :: "tree option"
  elements :: "nat \<Rightarrow> element"
  next_element :: nat
  selector_engine :: "string \<Rightarrow> error + matcher"

definition getAttribute :: "element \<Rightarrow> string \<Rightarrow> string option" where
  "getAttribute e n = map_of (attributes e) n"

definition hasAttribute :: "element \<Rightarrow> string \<Rightarrow> bool" where
  "hasAttribute e n = (getAttribute e n \<noteq> None)"

definition setAttribute :: "string \<Rightarrow> string \<Rightarrow> element \<Rightarrow> element" where
  "setAttribute n v e = e\<lparr>attributes := AList.update n v (attributes e)\<rparr>"

text \<open>A boolean property that reflects a content attribute (\<open>async\<close>, \<open>defer\<close>, \<open>noModule\<close>).\<close>

definition setBoolean :: "string \<Rightarrow> bool \<Rightarrow> element \<Rightarrow> element" where
  "setBoolean n b e =
     (if b then setAttribute n [] e else e\<lparr>attributes := AList.delete n (attributes e)\<rparr>)"

definition update_element :: "nat \<Rightarrow> (element \<Rightarrow> element) \<Rightarrow> 'a dom_scheme \<Rightarrow> 'a dom_scheme" where
  "update_element e f d = d\<lparr>elements := (elements d)(e := f (elements d e))\<rparr>"

definition createElement :: "string \<Rightarrow> 'a dom_scheme \<Rightarrow> nat \<times> 'a dom_scheme" where
  "createElement tag d =
     (next_element d,
      d\<lparr>elements := (elements d)(next_element d :=
           \<lparr>localName = tag, attributes = [], textContent = [], listeners = []\<rparr>),
        next_element := Suc (next_element d)\<rparr>)"

definition nodes :: "tree \<Rightarrow> nat list" where
  "nodes t = head t @ body t"

definition isConnected :: "'a dom_scheme \<Rightarrow> nat \<Rightarrow> bool" where
  "isConnected d e = (case document d of None \<Rightarrow> False | Some t \<Rightarrow> e \<in> set (nodes t))"

text \<open>\<open>document.head.appendChild(el)\<close>: a node that is in the tree is moved.\<close>

definition appendChild :: "nat \<Rightarrow> tree \<Rightarrow> tree" where
  "appendChild e t = \<lparr>head = removeAll e (head t) @ [e], body = removeAll e (body t)\<rparr>"

text \<open>\<open>document.head.removeChild(el)\<close> throws unless \<open>el\<close> is a child of \<open>head\<close>.\<close>

definition removeChild :: "nat \<Rightarrow> tree \<Rightarrow> error + tree" where
  "removeChild e t =
     (if e \<in> set (head t) then Inr (t\<lparr>head := remove1 e (head t)\<rparr>) else Inl NotFoundError)"

text \<open>
  \<open>document.querySelector(`script[src="${v}"]`)\<close>. The source pastes \<open>v\<close> between the
  quotes of the selector. A string without a double quote, a backslash, a line break
  (line feed, carriage return, form feed) or a null character stands for itself there,
  and the selector matches the script elements whose attribute \<open>src\<close> is \<open>v\<close>. For any
  other string the selector is what the engine of the document makes of it, and the call
  throws if that is a syntax error. The result is the first match in tree order.
\<close>

definition plain :: "string \<Rightarrow> bool" where
  "plain v =
     list_all (\<lambda>c. c \<noteq> CHR 0x22 \<and> c \<noteq> CHR 0x5C \<and> c \<noteq> CHR 0x0A \<and> c \<noteq> CHR 0x0D \<and>
                    c \<noteq> CHR 0x0C \<and> c \<noteq> CHR 0x00) v"

definition script_with_src :: "(nat \<Rightarrow> element) \<Rightarrow> string \<Rightarrow> nat \<Rightarrow> bool" where
  "script_with_src els v e =
     (localName (els e) = ''script'' \<and> getAttribute (els e) ''src'' = Some v)"

definition script_selector :: "(string \<Rightarrow> error + matcher) \<Rightarrow> string \<Rightarrow> error + matcher" where
  "script_selector engine v =
     (if plain v then Inr (\<lambda>els t. script_with_src els v) else engine v)"

definition querySelector ::
  "(string \<Rightarrow> error + matcher) \<Rightarrow> (nat \<Rightarrow> element) \<Rightarrow> tree \<Rightarrow> string \<Rightarrow> error + nat option" where
  "querySelector engine els t v =
     (case script_selector engine v of
        Inl err \<Rightarrow> Inl err
      | Inr m \<Rightarrow> Inr (find (m els t) (nodes t)))"

text \<open>
  Modelled from the spec: \<open>useEventListener\<close> (\<open>../useEventListener\<close>), the event
  registration primitive that the loader consumes to attach its \<open>load\<close>, \<open>error\<close> and
  \<open>abort\<close> listeners. It attaches the listener to the element, after those already there.
\<close>

definition useEventListener :: "nat \<Rightarrow> string \<Rightarrow> listener \<Rightarrow> 'a dom_scheme \<Rightarrow> 'a dom_scheme" where
  "useEventListener el ev l d =
     update_element el (\<lambda>x. x\<lparr>listeners := listeners x @ [(ev, l)]\<rparr>) d"

section \<open>useScriptTag\<close>

text \<open>
  \<open>UseScriptTagOptions\<close>. An option left out is \<open>None\<close>; \<open>type\<close> and \<open>async\<close> carry
  their defaults; \<open>defer_flag\<close> is the option \<open>defer\<close>. The \<open>document\<close> option is the
  \<open>document\<close> field of the state.
\<close>

record options =
  script_type :: string
  async :: bool
  defer_flag :: "bool option"
  crossOrigin :: "string option"
  referrerPolicy :: "string option"
  noModule :: "bool option"
  nonce :: "string option"
  attrs :: "(string \<times> string) list"

text \<open>
  The state of one \<open>useScriptTag\<close> instance and of its surroundings: the document, the
  current value of the reactive \<open>src\<close> (read by \<open>toValue(src)\<close>), the ref \<open>scriptTag\<close>,
  the variable \<open>_promise\<close> (here \<open>cached_promise\<close>), the promises created so far, and
  the elements \<open>onLoaded\<close> has been called with.
\<close>

record state = dom +
  src :: string
  scriptTag :: "nat option"
  cached_promise :: "nat option"
  promises :: "nat \<Rightarrow> pstate"
  next_promise :: nat
  onLoaded_calls :: "nat list"

text \<open>\<open>new Promise(...)\<close> and its \<open>resolve\<close> and \<open>reject\<close>: a settled promise stays as it is.\<close>

definition new_promise :: "state \<Rightarrow> nat \<times> state" where
  "new_promise s =
     (next_promise s,
      s\<lparr>promises := (promises s)(next_promise s := Pending),
        next_promise := Suc (next_promise s)\<rparr>)"

definition resolve :: "nat \<Rightarrow> jsvalue \<Rightarrow> state \<Rightarrow> state" where
  "resolve p v s =
     (if promises s p = Pending then s\<lparr>promises := (promises s)(p := Fulfilled v)\<rparr> else s)"

definition reject :: "nat \<Rightarrow> reason \<Rightarrow> state \<Rightarrow> state" where
  "reject p ev s =
     (if promises s p = Pending then s\<lparr>promises := (promises s)(p := Rejected ev)\<rparr> else s)"

definition resolveWithElement :: "nat \<Rightarrow> nat \<Rightarrow> state \<Rightarrow> state" where
  "resolveWithElement p el s = resolve p (El el) (s\<lparr>scriptTag := Some el\<rparr>)"

text \<open>A string option is truthy when it is given and not empty.\<close>

definition truthy :: "string option \<Rightarrow> bool" where
  "truthy x = (case x of None \<Rightarrow> False | Some v \<Rightarrow> v \<noteq> [])"

text \<open>Lines 114 to 130: the properties and attributes of a script element just created.\<close>

definition configure_script :: "options \<Rightarrow> string \<Rightarrow> element \<Rightarrow> element" where
  "configure_script opts v e =
     (let e1 = setAttribute ''type'' (script_type opts) e;
          e2 = setBoolean ''async'' (async opts) e1;
          e3 = setAttribute ''src'' v e2;
          e4 = (if defer_flag opts = Some True then setBoolean ''defer'' True e3 else e3);
          e5 = (if truthy (crossOrigin opts)
                then setAttribute ''crossorigin'' (the (crossOrigin opts)) e4 else e4);
          e6 = (if noModule opts = Some True then setBoolean ''nomodule'' True e5 else e5);
          e7 = (if truthy (referrerPolicy opts)
                then setAttribute ''referrerpolicy'' (the (referrerPolicy opts)) e6 else e6);
          e8 = (if truthy (nonce opts) then setAttribute ''nonce'' (the (nonce opts)) e7 else e7)
      in fold (\<lambda>(n, x). setAttribute n x) (attrs opts) e8)"

text \<open>
  \<open>loadScript\<close> is the executor of a new promise: an exception thrown in it (by
  \<open>querySelector\<close>) ends it and rejects the promise.
\<close>

definition loadScript :: "options \<Rightarrow> bool \<Rightarrow> state \<Rightarrow> nat \<times> state" where
  "loadScript opts waitForScriptLoad s0 =
     (let (p, s) = new_promise s0 in
      case document s of
        None \<Rightarrow> (p, resolve p (Bool False) s)
      | Some t \<Rightarrow>
          (case querySelector (selector_engine s) (elements s) t (src s) of
             Inl err \<Rightarrow> (p, reject p (Thrown err) s)
           | Inr found \<Rightarrow>
               (let (el, shouldAppend, s1) =
                      (case found of
                         None \<Rightarrow>
                           let (e, s') = createElement ''script'' s
                           in (e, True, update_element e (configure_script opts (src s)) s')
                       | Some e \<Rightarrow>
                           (e, False,
                            if hasAttribute (elements s e) ''data-loaded''
                            then resolveWithElement p e s else s));
                    s2 = useEventListener el ''error'' (Reject_handler p) s1;
                    s3 = useEventListener el ''abort'' (Reject_handler p) s2;
                    s4 = useEventListener el ''load'' (Load_handler p) s3;
                    s5 = (if shouldAppend then s4\<lparr>document := Some (appendChild el t)\<rparr>
                          else s4);
                    s6 = (if \<not> waitForScriptLoad then resolveWithElement p el s5 else s5)
                in (p, s6))))"

definition load :: "options \<Rightarrow> bool \<Rightarrow> state \<Rightarrow> nat \<times> state" where
  "load opts waitForScriptLoad s =
     (case cached_promise s of
        None \<Rightarrow>
          let (p, s') = loadScript opts waitForScriptLoad s
          in (p, s'\<lparr>cached_promise := Some p\<rparr>)
      | Some p \<Rightarrow> (p, s))"

text \<open>\<open>unload\<close> returns the exception it ends with, if any, and the state it leaves.\<close>

definition unload :: "state \<Rightarrow> error option \<times> state" where
  "unload s =
     (case document s of
        None \<Rightarrow> (None, s)
      | Some t \<Rightarrow>
          (let s1 = s\<lparr>cached_promise := None\<rparr>;
               s2 = (if scriptTag s1 \<noteq> None then s1\<lparr>scriptTag := None\<rparr> else s1)
           in (case querySelector (selector_engine s2) (elements s2) t (src s2) of
                 Inl err \<Rightarrow> (Some err, s2)
               | Inr None \<Rightarrow> (None, s2)
               | Inr (Some el) \<Rightarrow>
                   (case removeChild el t of
                      Inl err \<Rightarrow> (Some err, s2)
                    | Inr t' \<Rightarrow> (None, s2\<lparr>document := Some t'\<rparr>)))))"

text \<open>
  What a listener of \<open>loadScript\<close> does when its event reaches the element \<open>el\<close> it is
  registered on. \<open>onLoaded\<close> is the caller's callback: the model records the call and
  takes it to return.
\<close>

fun run_listener :: "nat \<Rightarrow> string \<Rightarrow> listener \<Rightarrow> state \<Rightarrow> state" where
  "run_listener el ev (Reject_handler p) s = reject p (Event ev el) s"
| "run_listener el ev (Load_handler p) s =
     resolveWithElement p el
       ((update_element el (setAttribute ''data-loaded'' ''true'') s)
          \<lparr>onLoaded_calls := onLoaded_calls s @ [el]\<rparr>)"

text \<open>An event of type \<open>ev\<close> at \<open>el\<close> runs the listeners registered there for \<open>ev\<close>, in order.\<close>

definition dispatchEvent :: "nat \<Rightarrow> string \<Rightarrow> state \<Rightarrow> state" where
  "dispatchEvent el ev s =
     fold (run_listener el ev)
       (map snd (filter (\<lambda>x. fst x = ev) (listeners (elements s el)))) s"

text \<open>
  \<open>useScriptTag(src, onLoaded, options)\<close> in a document: the state before the first call
  of \<open>load\<close> or \<open>unload\<close>.
\<close>

definition useScriptTag :: "string \<Rightarrow> dom \<Rightarrow> state" where
  "useScriptTag v d =
     \<lparr>document = document d, elements = elements d, next_element = next_element d,
      selector_engine = selector_engine d, src = v, scriptTag = None, cached_promise = None,
      promises = (\<lambda>_. Pending), next_promise = 0, onLoaded_calls = []\<rparr>"

text \<open>
  What happens to a loader: calls of \<open>load\<close> and \<open>unload\<close> (by the caller, or by the
  hooks that \<open>tryOnMounted\<close> and \<open>tryOnUnmounted\<close> run unless \<open>manual\<close> is set),
  events at the elements that exist, and changes of the reactive \<open>src\<close>.
\<close>

datatype action = Load bool | Unload | Dispatch nat string | Set_src string

datatype result = Returned nat | Done | Threw error

fun step :: "options \<Rightarrow> action \<Rightarrow> state \<Rightarrow> result \<times> state" where
  "step opts (Load w) s = (let (p, s') = load opts w s in (Returned p, s'))"
| "step opts Unload s =
     (case unload s of (None, s') \<Rightarrow> (Done, s') | (Some err, s') \<Rightarrow> (Threw err, s'))"
| "step opts (Dispatch el ev) s =
     (Done, if el < next_element s then dispatchEvent el ev s else s)"
| "step opts (Set_src v) s = (Done, s\<lparr>src := v\<rparr>)"

fun run :: "options \<Rightarrow> action list \<Rightarrow> state \<Rightarrow> result list \<times> state" where
  "run opts [] s = ([], s)"
| "run opts (a # as) s =
     (let (r, s1) = step opts a s; (rs, s2) = run opts as s1 in (r # rs, s2))"

text \<open>
  A document as a loader finds it: the nodes of the tree are elements that exist, no node
  is in the tree twice, and no element carries a listener of the loader yet.
\<close>

definition well_formed :: "'a dom_scheme \<Rightarrow> bool" where
  "well_formed d =
     (case document d of
        None \<Rightarrow> True
      | Some t \<Rightarrow> distinct (nodes t) \<and> list_all (\<lambda>e. e < next_element d) (nodes t))"

definition pristine :: "dom \<Rightarrow> bool" where
  "pristine d =
     (well_formed d \<and> list_all (\<lambda>e. listeners (elements d e) = []) [0..<next_element d])"

inductive reachable :: "options \<Rightarrow> state \<Rightarrow> bool" for opts :: options where
  reachable_init: "pristine d \<Longrightarrow> reachable opts (useScriptTag v d)"
| reachable_step: "reachable opts s \<Longrightarrow> reachable opts (snd (step opts a s))"

text \<open>
  Without a document, the promise that \<open>load\<close> has cached is fulfilled with \<open>false\<close>.
\<close>

definition no_document_inv :: "state \<Rightarrow> bool" where
  "no_document_inv s =
     (document s = None \<longrightarrow>
        (\<forall>p. cached_promise s = Some p \<longrightarrow> p < next_promise s \<and> promises s p = Fulfilled (Bool False)))"

text \<open>
  The promise \<open>p\<close> waits for the \<open>load\<close> event of the element \<open>e\<close>: the handler that
  \<open>loadScript\<close> registered for \<open>p\<close> is on \<open>e\<close>.
\<close>

definition awaits :: "state \<Rightarrow> nat \<Rightarrow> nat \<Rightarrow> bool" where
  "awaits s p e = ((''load'', Load_handler p) \<in> set (listeners (elements s e)))"

text \<open>The three listeners that \<open>loadScript\<close> registers for the promise \<open>p\<close>.\<close>

definition new_listeners :: "nat \<Rightarrow> (string \<times> listener) list" where
  "new_listeners p =
     [(''error'', Reject_handler p), (''abort'', Reject_handler p), (''load'', Load_handler p)]"

text \<open>
  The listeners on the elements that exist are those \<open>loadScript\<close> puts there: a reject
  handler listens to \<open>error\<close> or \<open>abort\<close>, a load handler to \<open>load\<close>, next to the two
  reject handlers of the same promise; every promise that is pending waits for an element.
\<close>

definition listener_ok :: "state \<Rightarrow> nat \<Rightarrow> string \<times> listener \<Rightarrow> bool" where
  "listener_ok s e x =
     (case snd x of
        Reject_handler p \<Rightarrow> (fst x = ''error'' \<or> fst x = ''abort'') \<and> p < next_promise s
      | Load_handler p \<Rightarrow>
          fst x = ''load'' \<and> p < next_promise s \<and>
          (''error'', Reject_handler p) \<in> set (listeners (elements s e)) \<and>
          (''abort'', Reject_handler p) \<in> set (listeners (elements s e)))"

definition listeners_inv :: "state \<Rightarrow> bool" where
  "listeners_inv s =
     ((\<forall>e < next_element s. \<forall>x \<in> set (listeners (elements s e)). listener_ok s e x) \<and>
      (\<forall>p < next_promise s. promises s p = Pending \<longrightarrow> (\<exists>e < next_element s. awaits s p e)))"


text \<open>
  The element \<open>loadScript\<close> works on when its query has returned \<open>found\<close>: the one
  found, or else the one it is about to create. A call of \<open>load\<close> creates an element
  when no promise is cached, there is a document, and the query returns without a match.
\<close>

definition script_target :: "state \<Rightarrow> nat option \<Rightarrow> nat" where
  "script_target s found = (case found of None \<Rightarrow> next_element s | Some e \<Rightarrow> e)"

definition creates_element :: "state \<Rightarrow> bool" where
  "creates_element s =
     (case cached_promise s of
        Some p \<Rightarrow> False
      | None \<Rightarrow>
          (case document s of
             None \<Rightarrow> False
           | Some t \<Rightarrow>
               querySelector (selector_engine s) (elements s) t (src s) = Inr None))"

section \<open>useStyleTag\<close>

text \<open>
  \<open>UseStyleTagOptions\<close>; \<open>style_id\<close> is the option \<open>id\<close> or, when it is left out, the
  generated \<open>vueuse_styletag_N\<close>.
\<close>

record style_options =
  media :: "string option"
  style_nonce :: "string option"
  style_id :: string

text \<open>
  A watcher created by \<open>watch(cssRef, ...)\<close>: the element its callback writes to,
  whether it is still active, and whether its job is queued.
\<close>

record watcher =
  target :: nat
  active :: bool
  queued :: bool

text \<open>
  The state of one \<open>useStyleTag\<close> instance: the document, the value of \<open>cssRef\<close>, the
  ref \<open>isLoaded\<close>, the variable \<open>stop\<close> (\<open>None\<close> is the initial \<open>() => { }\<close>,
  \<open>Some w\<close> the function that stops the watcher \<open>w\<close>), and the watchers created so far.
\<close>

record style_state = dom +
  css :: string
  isLoaded :: bool
  stop :: "nat option"
  watchers :: "watcher list"

text \<open>
  \<open>document.getElementById(v)\<close>: the first element in tree order with that id. No
  element has the empty string as its id.
\<close>

definition getElementById :: "(nat \<Rightarrow> element) \<Rightarrow> tree \<Rightarrow> string \<Rightarrow> nat option" where
  "getElementById els t v =
     (if v = [] then None else find (\<lambda>e. getAttribute (els e) ''id'' = Some v) (nodes t))"

text \<open>Lines 84 to 88: the properties of a style element that is not in the document.\<close>

definition configure_style :: "style_options \<Rightarrow> element \<Rightarrow> element" where
  "configure_style opts e =
     (let e1 = setAttribute ''id'' (style_id opts) e;
          e2 = (if truthy (style_nonce opts)
                then setAttribute ''nonce'' (the (style_nonce opts)) e1 else e1)
      in if truthy (media opts) then setAttribute ''media'' (the (media opts)) e2 else e2)"

definition set_textContent :: "nat \<Rightarrow> string \<Rightarrow> 'a dom_scheme \<Rightarrow> 'a dom_scheme" where
  "set_textContent el v d = update_element el (\<lambda>x. x\<lparr>textContent := v\<rparr>) d"

text \<open>
  Vue's \<open>watch(cssRef, callback, { immediate: true })\<close>, with the callback
  \<open>el.textContent = value\<close>. It runs the callback with the current value at once and
  returns the function that stops the watcher. After a change of \<open>cssRef\<close> the job of the
  watcher is queued, and the scheduler runs it later (the default \<open>flush\<close>): the job of
  a watcher that was stopped does nothing, and the job of an active one runs the callback
  with the current value (\<open>cssRef\<close> is a shallow ref, line 74, for which the callback runs
  whatever the value the watcher saw last).
\<close>

definition watch :: "nat \<Rightarrow> style_state \<Rightarrow> nat \<times> style_state" where
  "watch el s =
     (length (watchers s),
      (set_textContent el (css s) s)
        \<lparr>watchers := watchers s @ [\<lparr>target = el, active = True, queued = False\<rparr>]\<rparr>)"

definition stop_watcher :: "nat \<Rightarrow> watcher list \<Rightarrow> watcher list" where
  "stop_watcher w ws = (if w < length ws then ws[w := (ws ! w)\<lparr>active := False\<rparr>] else ws)"

definition run_job :: "watcher \<Rightarrow> style_state \<Rightarrow> style_state" where
  "run_job w s = (if queued w \<and> active w then set_textContent (target w) (css s) s else s)"

text \<open>
  The job of the watcher \<open>w\<close> writes to the element \<open>e\<close> when it is queued and the
  watcher is active and writes to \<open>e\<close>.
\<close>

definition writes :: "nat \<Rightarrow> watcher \<Rightarrow> bool" where
  "writes e w = (queued w \<and> active w \<and> target w = e)"

text \<open>The scheduler runs the jobs that are queued; after that none is queued.\<close>

definition flush :: "style_state \<Rightarrow> style_state" where
  "flush s = (fold run_job (watchers s) s)\<lparr>watchers := map (\<lambda>w. w\<lparr>queued := False\<rparr>) (watchers s)\<rparr>"

text \<open>
  An assignment to \<open>css.value\<close>: a shallow ref triggers its watchers when the value
  assigned differs from the one it holds, and the job of every active watcher is queued.
\<close>

definition set_css :: "string \<Rightarrow> style_state \<Rightarrow> style_state" where
  "set_css v s =
     (if v = css s then s
      else s\<lparr>css := v,
             watchers := map (\<lambda>w. if active w then w\<lparr>queued := True\<rparr> else w) (watchers s)\<rparr>)"

definition load_style :: "style_options \<Rightarrow> style_state \<Rightarrow> style_state" where
  "load_style opts s =
     (case document s of
        None \<Rightarrow> s
      | Some t \<Rightarrow>
          (let (el, s1) =
                 (case getElementById (elements s) t (style_id opts) of
                    Some e \<Rightarrow> (e, s)
                  | None \<Rightarrow> createElement ''style'' s);
               s2 = (if \<not> isConnected s1 el
                     then (update_element el (configure_style opts) s1)
                            \<lparr>document := Some (appendChild el t)\<rparr>
                     else s1)
           in if isLoaded s2 then s2
              else (let (w, s3) = watch el s2 in s3\<lparr>stop := Some w, isLoaded := True\<rparr>)))"

definition unload_style :: "style_options \<Rightarrow> style_state \<Rightarrow> error option \<times> style_state" where
  "unload_style opts s =
     (case document s of
        None \<Rightarrow> (None, s)
      | Some t \<Rightarrow>
          (if \<not> isLoaded s then (None, s)
           else
             (let s1 = (case stop s of
                          None \<Rightarrow> s
                        | Some w \<Rightarrow> s\<lparr>watchers := stop_watcher w (watchers s)\<rparr>)
              in (case getElementById (elements s1) t (style_id opts) of
                    None \<Rightarrow> (Some TypeError, s1)
                  | Some el \<Rightarrow>
                      (case removeChild el t of
                         Inl err \<Rightarrow> (Some err, s1)
                       | Inr t' \<Rightarrow> (None, s1\<lparr>document := Some t', isLoaded := False\<rparr>))))))"

definition useStyleTag :: "string \<Rightarrow> dom \<Rightarrow> style_state" where
  "useStyleTag v d =
     \<lparr>document = document d, elements = elements d, next_element = next_element d,
      selector_engine = selector_engine d, css = v, isLoaded = False, stop = None,
      watchers = []\<rparr>"

text \<open>
  What happens to a style loader: calls of \<open>load\<close> and \<open>unload\<close>, assignments to
  \<open>css.value\<close>, and runs of the scheduler.
\<close>

datatype style_action = Load_style | Unload_style | Set_css string | Flush

fun style_step :: "style_options \<Rightarrow> style_action \<Rightarrow> style_state \<Rightarrow> style_state" where
  "style_step opts Load_style s = load_style opts s"
| "style_step opts Unload_style s = snd (unload_style opts s)"
| "style_step opts (Set_css v) s = set_css v s"
| "style_step opts Flush s = flush s"

fun style_run :: "style_options \<Rightarrow> style_action list \<Rightarrow> style_state \<Rightarrow> style_state" where
  "style_run opts [] s = s"
| "style_run opts (a # as) s = style_run opts as (style_step opts a s)"

text \<open>No element of the document outside \<open>head\<close> has the id of the loader.\<close>

definition no_style_outside_head :: "style_options \<Rightarrow> 'a dom_scheme \<Rightarrow> bool" where
  "no_style_outside_head opts d =
     (case document d of
        None \<Rightarrow> True
      | Some t \<Rightarrow>
          list_all (\<lambda>e. getAttribute (elements d e) ''id'' \<noteq> Some (style_id opts)) (body t))"

text \<open>
  The states of a loader that starts in a document where its id, if it is in use at all,
  is in use in \<open>head\<close>.
\<close>

inductive style_reachable :: "style_options \<Rightarrow> style_state \<Rightarrow> bool"
  for opts :: style_options where
  style_init:
    "well_formed d \<Longrightarrow> no_style_outside_head opts d \<Longrightarrow> style_reachable opts (useStyleTag v d)"
| style_next: "style_reachable opts s \<Longrightarrow> style_reachable opts (style_step opts a s)"

text \<open>
  The style element of a loader: the element with its id in the document. While a loader
  with an id that is not empty is loaded, the watcher that \<open>stop\<close> stops is the only
  active one and writes to the style element, and the text of that element is the current
  value of \<open>css\<close> unless the job of the watcher is queued.
\<close>

definition style_element :: "style_options \<Rightarrow> style_state \<Rightarrow> nat option" where
  "style_element opts s =
     (case document s of None \<Rightarrow> None | Some t \<Rightarrow> getElementById (elements s) t (style_id opts))"

definition watching :: "style_state \<Rightarrow> nat \<Rightarrow> nat \<Rightarrow> bool" where
  "watching s i el =
     (stop s = Some i \<and> i < length (watchers s) \<and> active (watchers s ! i) \<and>
      target (watchers s ! i) = el \<and>
      (queued (watchers s ! i) \<or> textContent (elements s el) = css s))"

definition style_inv :: "style_options \<Rightarrow> style_state \<Rightarrow> bool" where
  "style_inv opts s =
     (well_formed s \<and> no_style_outside_head opts s \<and>
      (\<forall>i < length (watchers s). active (watchers s ! i) \<longrightarrow> isLoaded s \<and> stop s = Some i) \<and>
      (isLoaded s \<longrightarrow> (\<exists>i el. watching s i el \<and> style_element opts s = Some el)))"

section \<open>The directive vOnClickOutside\<close>

text \<open>
  The values of the fields of an options object, and an object as the list of its own
  properties (\<open>map_of\<close> reads a property). \<open>Object.assign(obj, props)\<close> writes every
  own property of \<open>props\<close> into \<open>obj\<close>, also one whose value is \<open>undefined\<close>.
\<close>

datatype jsfield = Undefined | Boolean bool | Other string

type_synonym jsobject = "(string \<times> jsfield) list"

definition object_assign :: "jsobject \<Rightarrow> jsobject \<Rightarrow> jsobject" where
  "object_assign obj props = AList.merge obj props"

text \<open>
  \<open>binding.value\<close> is a handler, or an array of a handler and an options object;
  \<open>binding.modifiers\<close> maps the modifiers that are set to \<open>true\<close>.
\<close>

datatype 'h binding_value = Handler 'h | Handler_with_options 'h jsobject

record 'h binding =
  bvalue :: "'h binding_value"
  modifiers :: "(string \<times> bool) list"

text \<open>
  What the directive does to its surroundings: the calls of \<open>onClickOutside\<close> made so
  far, each with its element, handler and options; the property
  \<open>__onClickOutside_stop\<close> of each element; and the stop functions called so far.
\<close>

record 'h directive_state =
  registrations :: "(nat \<times> 'h \<times> jsobject) list"
  stored_stop :: "nat \<Rightarrow> nat option"
  stop_calls :: "nat list"

definition bubble :: "'h binding \<Rightarrow> bool" where
  "bubble b = (map_of (modifiers b) ''bubble'' = Some True)"

text \<open>
  Modelled from the spec: \<open>onClickOutside\<close> (\<open>./index\<close>), the outside-click detection
  primitive that the directive wraps. It registers the handler for the element with the
  options given and returns a cancellation function; the function that the call number
  \<open>i\<close> returns is \<open>i\<close>.
\<close>

definition onClickOutside ::
  "nat \<Rightarrow> 'h \<Rightarrow> jsobject \<Rightarrow> 'h directive_state \<Rightarrow> nat \<times> 'h directive_state" where
  "onClickOutside el handler opts s =
     (length (registrations s), s\<lparr>registrations := registrations s @ [(el, handler, opts)]\<rparr>)"

definition mounted :: "nat \<Rightarrow> 'h binding \<Rightarrow> 'h directive_state \<Rightarrow> 'h directive_state" where
  "mounted el b s =
     (let capture = \<not> bubble b
      in case bvalue b of
           Handler h \<Rightarrow>
             (let (st, s') = onClickOutside el h [(''capture'', Boolean capture)] s
              in s'\<lparr>stored_stop := (stored_stop s')(el := Some st)\<rparr>)
         | Handler_with_options h opts \<Rightarrow>
             (let (st, s') =
                    onClickOutside el h (object_assign [(''capture'', Boolean capture)] opts) s
              in s'\<lparr>stored_stop := (stored_stop s')(el := Some st)\<rparr>))"

text \<open>Calling the property of an element that has none is a \<open>TypeError\<close>.\<close>

definition unmounted :: "nat \<Rightarrow> 'h directive_state \<Rightarrow> error option \<times> 'h directive_state" where
  "unmounted el s =
     (case stored_stop s el of
        None \<Rightarrow> (Some TypeError, s)
      | Some st \<Rightarrow> (None, s\<lparr>stop_calls := stop_calls s @ [st]\<rparr>))"

text \<open>The \<open>capture\<close> option that the last call of \<open>onClickOutside\<close> was given.\<close>

definition registered_capture :: "'h directive_state \<Rightarrow> jsfield option" where
  "registered_capture s = map_of (snd (snd (last (registrations s)))) ''capture''"

text \<open>
  The handler of a binding, and the \<open>capture\<close> option that the directive passes on for
  it: \<open>!binding.modifiers.bubble\<close>, unless the options of the binding have a property
  \<open>capture\<close> of their own, which then replaces it.
\<close>

definition handler_of :: "'h binding \<Rightarrow> 'h" where
  "handler_of b = (case bvalue b of Handler h \<Rightarrow> h | Handler_with_options h opts \<Rightarrow> h)"

definition expected_capture :: "'h binding \<Rightarrow> jsfield" where
  "expected_capture b =
     (case bvalue b of
        Handler h \<Rightarrow> Boolean (\<not> bubble b)
      | Handler_with_options h opts \<Rightarrow>
          (case map_of opts ''capture'' of None \<Rightarrow> Boolean (\<not> bubble b) | Some v \<Rightarrow> v))"

section \<open>Example inputs\<close>

text \<open>No directive is mounted yet.\<close>

definition no_bindings :: "nat directive_state" where
  "no_bindings = \<lparr>registrations = [], stored_stop = (\<lambda>_. None), stop_calls = []\<rparr>"


definition default_options :: options where
  "default_options =
     \<lparr>script_type = ''text/javascript'', async = True, defer_flag = None, crossOrigin = None,
      referrerPolicy = None, noModule = None, nonce = None, attrs = []\<rparr>"

definition empty_element :: element where
  "empty_element = \<lparr>localName = [], attributes = [], textContent = [], listeners = []\<rparr>"

text \<open>A document with nothing in it, and the absence of a document.\<close>

text \<open>
  An engine that finds a syntax error in the selector of every string that does not stand
  for itself, as browsers do in \<open>script[src="a"b.js"]\<close>.
\<close>

definition strict_engine :: "string \<Rightarrow> error + matcher" where
  "strict_engine v = Inl SyntaxError"

definition empty_document :: dom where
  "empty_document =
     \<lparr>document = Some \<lparr>head = [], body = []\<rparr>, elements = (\<lambda>_. empty_element), next_element = 0,
      selector_engine = strict_engine\<rparr>"

definition no_document :: dom where
  "no_document =
     \<lparr>document = None, elements = (\<lambda>_. empty_element), next_element = 0,
      selector_engine = strict_engine\<rparr>"

text \<open>
  A script element as a page may hold it, marked ready or not; a page with one such
  element in \<open>head\<close>, a page with two of them, the first not marked ready, and a page
  with one in \<open>body\<close>.
\<close>

definition script_element :: "string \<Rightarrow> bool \<Rightarrow> element" where
  "script_element v ready =
     \<lparr>localName = ''script'',
      attributes = (if ready then [(''src'', v), (''data-loaded'', ''true'')] else [(''src'', v)]),
      textContent = [], listeners = []\<rparr>"

definition page_with_script :: "string \<Rightarrow> bool \<Rightarrow> dom" where
  "page_with_script v ready =
     \<lparr>document = Some \<lparr>head = [0], body = []\<rparr>,
      elements = (\<lambda>_. script_element v ready), next_element = 1,
      selector_engine = strict_engine\<rparr>"

definition page_with_two_scripts :: "string \<Rightarrow> bool \<Rightarrow> dom" where
  "page_with_two_scripts v ready =
     \<lparr>document = Some \<lparr>head = [0, 1], body = []\<rparr>,
      elements = (\<lambda>e. script_element v (e \<noteq> 0 \<and> ready)), next_element = 2,
      selector_engine = strict_engine\<rparr>"

definition page_with_script_in_body :: "string \<Rightarrow> dom" where
  "page_with_script_in_body v =
     \<lparr>document = Some \<lparr>head = [], body = [0]\<rparr>,
      elements = (\<lambda>_. script_element v False), next_element = 1,
      selector_engine = strict_engine\<rparr>"

text \<open>The source \<open>a"b.js\<close>, with a double quote in it.\<close>

definition quoted_src :: string where
  "quoted_src = ''a'' @ [CHR 0x22] @ ''b.js''"

text \<open>The options of a style loader with a generated id.\<close>

definition example_style_options :: style_options where
  "example_style_options = \<lparr>media = None, style_nonce = None, style_id = ''vueuse_styletag_1''\<rparr>"

text \<open>
  The options \<open>{ id: '' }\<close>, and a page that has an element with the generated id in
  \<open>body\<close>.
\<close>

definition empty_id_options :: style_options where
  "empty_id_options = \<lparr>media = None, style_nonce = None, style_id = []\<rparr>"

definition page_with_style_in_body :: dom where
  "page_with_style_in_body =
     \<lparr>document = Some \<lparr>head = [], body = [0]\<rparr>,
      elements = (\<lambda>_. \<lparr>localName = ''style'', attributes = [(''id'', ''vueuse_styletag_1'')],
                        textContent = [], listeners = []\<rparr>),
      next_element = 1, selector_engine = strict_engine\<rparr>"

section \<open>Properties of useScriptTag\<close>

subsection \<open>What each operation leaves alone\<close>

lemma load_cached: "cached_promise s = Some p \<Longrightarrow> load opts w s = (p, s)"
  by (simp add: load_def)

lemma resolve_fields [simp]:
  "document (resolve p v s) = document s" "elements (resolve p v s) = elements s"
  "next_element (resolve p v s) = next_element s" "src (resolve p v s) = src s"
  "scriptTag (resolve p v s) = scriptTag s" "cached_promise (resolve p v s) = cached_promise s"
  "next_promise (resolve p v s) = next_promise s" "onLoaded_calls (resolve p v s) = onLoaded_calls s"
  "selector_engine (resolve p v s) = selector_engine s"
  by (simp_all add: resolve_def)

lemma reject_fields [simp]:
  "document (reject p v s) = document s" "elements (reject p v s) = elements s"
  "next_element (reject p v s) = next_element s" "src (reject p v s) = src s"
  "scriptTag (reject p v s) = scriptTag s" "cached_promise (reject p v s) = cached_promise s"
  "next_promise (reject p v s) = next_promise s" "onLoaded_calls (reject p v s) = onLoaded_calls s"
  "selector_engine (reject p v s) = selector_engine s"
  by (simp_all add: reject_def)

lemma resolve_promises:
  "promises (resolve p v s) q = (if q = p \<and> promises s p = Pending then Fulfilled v else promises s q)"
  by (simp add: resolve_def)

lemma reject_promises:
  "promises (reject p v s) q = (if q = p \<and> promises s p = Pending then Rejected v else promises s q)"
  by (simp add: reject_def)

lemma resolveWithElement_fields [simp]:
  "document (resolveWithElement p el s) = document s" "elements (resolveWithElement p el s) = elements s"
  "next_element (resolveWithElement p el s) = next_element s" "src (resolveWithElement p el s) = src s"
  "scriptTag (resolveWithElement p el s) = Some el" "cached_promise (resolveWithElement p el s) = cached_promise s"
  "next_promise (resolveWithElement p el s) = next_promise s"
  "selector_engine (resolveWithElement p el s) = selector_engine s"
  by (simp_all add: resolveWithElement_def)

lemma resolveWithElement_promises:
  "promises (resolveWithElement p el s) q = (if q = p \<and> promises s p = Pending then Fulfilled (El el) else promises s q)"
  by (simp add: resolveWithElement_def resolve_promises)

lemma update_element_fields [simp]:
  "document (update_element e f d) = document d"
  "next_element (update_element e f d) = next_element d"
  "selector_engine (update_element e f d) = selector_engine d"
  "elements (update_element e f d) x = (if x = e then f (elements d e) else elements d x)"
  by (simp_all add: update_element_def)

lemma update_element_state_fields [simp]:
  "src (update_element e f s) = src s"
  "scriptTag (update_element e f s) = scriptTag s"
  "cached_promise (update_element e f s) = cached_promise s"
  "promises (update_element e f s) = promises s"
  "next_promise (update_element e f s) = next_promise s"
  "onLoaded_calls (update_element e f s) = onLoaded_calls s"
  by (simp_all add: update_element_def)

lemma useEventListener_fields [simp]:
  "document (useEventListener e ev l d) = document d"
  "next_element (useEventListener e ev l d) = next_element d"
  "selector_engine (useEventListener e ev l d) = selector_engine d"
  by (simp_all add: useEventListener_def)

lemma useEventListener_state_fields [simp]:
  "src (useEventListener e ev l s) = src s"
  "scriptTag (useEventListener e ev l s) = scriptTag s"
  "cached_promise (useEventListener e ev l s) = cached_promise s"
  "promises (useEventListener e ev l s) = promises s"
  "next_promise (useEventListener e ev l s) = next_promise s"
  by (simp_all add: useEventListener_def)

lemma run_listener_fields [simp]:
  "document (run_listener el ev l s) = document s"
  "next_element (run_listener el ev l s) = next_element s"
  "selector_engine (run_listener el ev l s) = selector_engine s"
  "src (run_listener el ev l s) = src s"
  "cached_promise (run_listener el ev l s) = cached_promise s"
  "next_promise (run_listener el ev l s) = next_promise s"
  by (cases l; simp)+

lemma run_listener_listeners [simp]:
  "listeners (elements (run_listener el ev l s) e) = listeners (elements s e)"
  by (cases l) (simp_all add: setAttribute_def)

lemma fold_run_listener_fields [simp]:
  "document (fold (run_listener el ev) ls s) = document s"
  "next_element (fold (run_listener el ev) ls s) = next_element s"
  "selector_engine (fold (run_listener el ev) ls s) = selector_engine s"
  "src (fold (run_listener el ev) ls s) = src s"
  "cached_promise (fold (run_listener el ev) ls s) = cached_promise s"
  "next_promise (fold (run_listener el ev) ls s) = next_promise s"
  "listeners (elements (fold (run_listener el ev) ls s) e) = listeners (elements s e)"
  by (induction ls arbitrary: s; simp)+

lemma dispatchEvent_fields [simp]:
  "document (dispatchEvent el ev s) = document s"
  "next_element (dispatchEvent el ev s) = next_element s"
  "selector_engine (dispatchEvent el ev s) = selector_engine s"
  "src (dispatchEvent el ev s) = src s"
  "cached_promise (dispatchEvent el ev s) = cached_promise s"
  "next_promise (dispatchEvent el ev s) = next_promise s"
  "listeners (elements (dispatchEvent el ev s) e) = listeners (elements s e)"
  by (simp_all add: dispatchEvent_def)


lemma new_promise_fields [simp]:
  "fst (new_promise s) = next_promise s"
  "document (snd (new_promise s)) = document s"
  "elements (snd (new_promise s)) = elements s"
  "next_element (snd (new_promise s)) = next_element s"
  "selector_engine (snd (new_promise s)) = selector_engine s"
  "src (snd (new_promise s)) = src s"
  "scriptTag (snd (new_promise s)) = scriptTag s"
  "cached_promise (snd (new_promise s)) = cached_promise s"
  "next_promise (snd (new_promise s)) = Suc (next_promise s)"
  "promises (snd (new_promise s)) = (promises s)(next_promise s := Pending)"
  by (simp_all add: new_promise_def)

lemma createElement_fields [simp]:
  "fst (createElement tag d) = next_element d"
  "document (snd (createElement tag d)) = document d"
  "next_element (snd (createElement tag d)) = Suc (next_element d)"
  "selector_engine (snd (createElement tag d)) = selector_engine d"
  "elements (snd (createElement tag d)) =
     (elements d)(next_element d := \<lparr>localName = tag, attributes = [], textContent = [], listeners = []\<rparr>)"
  by (simp_all add: createElement_def)

lemma createElement_state_fields [simp]:
  "src (snd (createElement tag s)) = src s"
  "scriptTag (snd (createElement tag s)) = scriptTag s"
  "cached_promise (snd (createElement tag s)) = cached_promise s"
  "promises (snd (createElement tag s)) = promises s"
  "next_promise (snd (createElement tag s)) = next_promise s"
  by (simp_all add: createElement_def)

lemma loadScript_fst [simp]: "fst (loadScript opts w s) = next_promise s"
  by (simp add: loadScript_def split_beta Let_def split: option.split sum.split)

lemma loadScript_fields [simp]:
  "next_promise (snd (loadScript opts w s)) = Suc (next_promise s)"
  "cached_promise (snd (loadScript opts w s)) = cached_promise s"
  "src (snd (loadScript opts w s)) = src s"
  "selector_engine (snd (loadScript opts w s)) = selector_engine s"
  by (simp_all add: loadScript_def split_beta Let_def split: option.split sum.split)

lemma loadScript_document_None [simp]:
  "(document (snd (loadScript opts w s)) = None) = (document s = None)"
  by (simp add: loadScript_def split_beta Let_def split: option.split sum.split)

lemma loadScript_no_document:
  "document s = None \<Longrightarrow>
   promises (snd (loadScript opts w s)) (next_promise s) = Fulfilled (Bool False)"
  by (simp add: loadScript_def split_beta resolve_promises)

lemma loadScript_next_element:
  "next_element (snd (loadScript opts w s)) =
     (case document s of
        None \<Rightarrow> next_element s
      | Some t \<Rightarrow>
          (if querySelector (selector_engine s) (elements s) t (src s) = Inr None
           then Suc (next_element s) else next_element s))"
  by (simp add: loadScript_def split_beta Let_def split: option.split sum.split)

lemma loadScript_promises_other:
  "q \<noteq> next_promise s \<Longrightarrow> promises (snd (loadScript opts w s)) q = promises s q"
  by (simp add: loadScript_def split_beta Let_def resolve_promises reject_promises
      resolveWithElement_promises split: option.split sum.split)

lemma load_fields [simp]:
  "src (snd (load opts w s)) = src s"
  "selector_engine (snd (load opts w s)) = selector_engine s"
  "(document (snd (load opts w s)) = None) = (document s = None)"
  by (simp_all add: load_def split_beta split: option.split)

lemma load_cached_after [simp]: "cached_promise (snd (load opts w s)) = Some (fst (load opts w s))"
  by (simp add: load_def split_beta split: option.split)

lemma unload_no_document: "document s = None \<Longrightarrow> unload s = (None, s)"
  by (simp add: unload_def)

lemma unload_fields [simp]:
  "src (snd (unload s)) = src s"
  "(document (snd (unload s)) = None) = (document s = None)"
  "elements (snd (unload s)) = elements s"
  "next_element (snd (unload s)) = next_element s"
  "promises (snd (unload s)) = promises s"
  "next_promise (snd (unload s)) = next_promise s"
  "selector_engine (snd (unload s)) = selector_engine s"
  by (simp_all add: unload_def Let_def split: option.split sum.split)

lemma unload_resets:
  "document s \<noteq> None \<Longrightarrow> cached_promise (snd (unload s)) = None \<and> scriptTag (snd (unload s)) = None"
  by (auto simp add: unload_def Let_def split: option.split sum.split)


lemma snd_step [simp]:
  "snd (step opts (Load w) s) = snd (load opts w s)"
  "snd (step opts Unload s) = snd (unload s)"
  by (simp_all add: split_beta split: option.split prod.split)

lemma fst_step_Load [simp]: "fst (step opts (Load w) s) = Returned (fst (load opts w s))"
  by (simp add: split_beta)

lemma step_cached:
  assumes "a \<noteq> Unload" and "cached_promise s = Some p"
  shows "fst (step opts a s) = (case a of Load w \<Rightarrow> Returned p | _ \<Rightarrow> Done)"
    and "cached_promise (snd (step opts a s)) = Some p"
    and "next_element (snd (step opts a s)) = next_element s"
    and "next_promise (snd (step opts a s)) = next_promise s"
  using assms by (cases a; simp add: load_cached)+

lemma run_cached:
  assumes "Unload \<notin> set acts" and "cached_promise s = Some p"
  shows "fst (run opts acts s) = map (\<lambda>a. case a of Load w \<Rightarrow> Returned p | _ \<Rightarrow> Done) acts
       \<and> cached_promise (snd (run opts acts s)) = Some p
       \<and> next_element (snd (run opts acts s)) = next_element s
       \<and> next_promise (snd (run opts acts s)) = next_promise s"
  using assms
proof (induction acts arbitrary: s)
  case Nil
  then show ?case by simp
next
  case (Cons a acts)
  from Cons.prems have a: "a \<noteq> Unload" and rest: "Unload \<notin> set acts" by auto
  note st = step_cached [OF a Cons.prems(2), of opts]
  from Cons.IH [OF rest st(2)] st show ?case
    by (simp add: split_beta)
qed

lemma step_document_None [simp]:
  "(document (snd (step opts a s)) = None) = (document s = None)"
  by (cases a) (simp_all del: step.simps(1,2))

lemma resolve_settled: "promises s q \<noteq> Pending \<Longrightarrow> promises (resolve p v s) q = promises s q"
  by (auto simp add: resolve_promises)

lemma run_listener_settled:
  "promises s q \<noteq> Pending \<Longrightarrow> promises (run_listener el ev l s) q = promises s q"
  by (cases l) (auto simp add: reject_promises resolveWithElement_promises)

lemma fold_run_listener_settled:
  "promises s q \<noteq> Pending \<Longrightarrow> promises (fold (run_listener el ev) ls s) q = promises s q"
  by (induction ls arbitrary: s) (simp_all add: run_listener_settled)

lemma dispatchEvent_settled:
  "promises s q \<noteq> Pending \<Longrightarrow> promises (dispatchEvent el ev s) q = promises s q"
  by (simp add: dispatchEvent_def fold_run_listener_settled)

lemma load_promises_old:
  "q < next_promise s \<Longrightarrow> promises (snd (load opts w s)) q = promises s q"
  by (simp add: load_def split_beta loadScript_promises_other split: option.split)

lemma load_next_promise_mono: "next_promise s \<le> next_promise (snd (load opts w s))"
  by (simp add: load_def split_beta split: option.split)

lemma step_settled:
  "q < next_promise s \<Longrightarrow> promises s q \<noteq> Pending \<Longrightarrow>
   promises (snd (step opts a s)) q = promises s q"
  by (cases a) (simp_all del: step.simps(1,2) add: load_promises_old dispatchEvent_settled)

lemma step_next_promise_mono: "next_promise s \<le> next_promise (snd (step opts a s))"
  by (cases a) (simp_all del: step.simps(1,2) add: load_next_promise_mono)

lemma run_settled:
  "q < next_promise s \<Longrightarrow> promises s q \<noteq> Pending \<Longrightarrow>
   promises (snd (run opts acts s)) q = promises s q"
proof (induction acts arbitrary: s)
  case Nil
  then show ?case by simp
next
  case (Cons a acts)
  have "q < next_promise (snd (step opts a s))"
    using Cons.prems(1) step_next_promise_mono [of s opts a] by linarith
  moreover have "promises (snd (step opts a s)) q = promises s q"
    using Cons.prems by (rule step_settled)
  ultimately show ?case
    using Cons.IH [of "snd (step opts a s)"] Cons.prems(2) by (simp add: split_beta)
qed


lemma no_document_inv_step:
  assumes "no_document_inv s"
  shows "no_document_inv (snd (step opts a s))"
proof (cases a)
  case (Load w)
  show ?thesis
  proof (cases "cached_promise s")
    case None
    then show ?thesis using Load
      by (simp del: step.simps(1,2) add: no_document_inv_def load_def split_beta loadScript_no_document)
  next
    case (Some p)
    then show ?thesis using Load assms by (simp del: step.simps(1,2) add: load_cached)
  qed
next
  case Unload
  then show ?thesis using assms
    by (cases "document s") (simp_all del: step.simps(1,2) add: unload_no_document no_document_inv_def)
next
  case (Dispatch el ev)
  then show ?thesis using assms
    by (simp add: no_document_inv_def dispatchEvent_settled)
next
  case (Set_src v)
  then show ?thesis using assms by (simp add: no_document_inv_def)
qed

lemma reachable_no_document_inv: "reachable opts s \<Longrightarrow> no_document_inv s"
proof (induction rule: reachable.induct)
  case (reachable_init d v)
  then show ?case by (simp add: no_document_inv_def useScriptTag_def)
next
  case (reachable_step s a)
  then show ?case by (simp add: no_document_inv_step)
qed

subsection \<open>The cached promise\<close>

text \<open>
  C10. A call \<open>load w1\<close> that finds no promise cached runs \<open>loadScript w1\<close>, which
  makes a new promise, and caches that promise; a call that finds one cached returns it.
  Either way the promise returned is the cached one afterwards, and it stays so through
  every call of \<open>load\<close>, every event and every change of \<open>src\<close>, as long as \<open>unload\<close>
  is not called: each of these calls of \<open>load\<close>, and a further \<open>load w2\<close> for any
  \<open>w2\<close>, returns that same promise, makes no other promise and changes nothing, also
  after the promise was settled. The argument of every call but the first is ignored.
\<close>

theorem load_memoized_until_unload:
  assumes "Unload \<notin> set acts"
  shows "(cached_promise s = None \<longrightarrow>
            load opts w1 s =
              (next_promise s,
               (snd (loadScript opts w1 s))\<lparr>cached_promise := Some (next_promise s)\<rparr>) \<and>
            next_promise (snd (load opts w1 s)) = Suc (next_promise s)) \<and>
         (\<forall>q. cached_promise s = Some q \<longrightarrow> load opts w1 s = (q, s)) \<and>
         cached_promise (snd (load opts w1 s)) = Some (fst (load opts w1 s)) \<and>
         fst (run opts acts (snd (load opts w1 s)))
           = map (\<lambda>a. case a of Load x \<Rightarrow> Returned (fst (load opts w1 s)) | _ \<Rightarrow> Done) acts \<and>
         cached_promise (snd (run opts acts (snd (load opts w1 s)))) = Some (fst (load opts w1 s)) \<and>
         next_promise (snd (run opts acts (snd (load opts w1 s))))
           = next_promise (snd (load opts w1 s)) \<and>
         load opts w2 (snd (run opts acts (snd (load opts w1 s))))
           = (fst (load opts w1 s), snd (run opts acts (snd (load opts w1 s))))"
proof -
  have c: "cached_promise (snd (load opts w1 s)) = Some (fst (load opts w1 s))"
    by simp
  note r = run_cached [OF assms c, of opts]
  have "load opts w1 s =
          (next_promise s, (snd (loadScript opts w1 s))\<lparr>cached_promise := Some (next_promise s)\<rparr>)"
    and "next_promise (snd (load opts w1 s)) = Suc (next_promise s)"
    if "cached_promise s = None"
    using that by (simp_all add: load_def split_beta)
  moreover have "load opts w1 s = (q, s)" if "cached_promise s = Some q" for q
    using that by (rule load_cached)
  moreover have "load opts w2 (snd (run opts acts (snd (load opts w1 s))))
      = (fst (load opts w1 s), snd (run opts acts (snd (load opts w1 s))))"
    using r by (simp add: load_cached)
  ultimately show ?thesis
    using c r by blast
qed

theorem load_memoized_until_unload_witness:
  "Unload \<notin> set [Dispatch 0 ''load'', Load False] \<and>
   cached_promise (useScriptTag ''a.js'' empty_document) = None \<and>
   fst (load default_options True (useScriptTag ''a.js'' empty_document)) = 0 \<and>
   next_promise (snd (load default_options True (useScriptTag ''a.js'' empty_document))) = 1 \<and>
   cached_promise (snd (load default_options True (useScriptTag ''a.js'' empty_document))) = Some 0 \<and>
   fst (run default_options [Dispatch 0 ''load'', Load False]
        (snd (load default_options True (useScriptTag ''a.js'' empty_document))))
     = [Done, Returned 0] \<and>
   fst (load default_options False
     (snd (run default_options [Dispatch 0 ''load'', Load False]
        (snd (load default_options True (useScriptTag ''a.js'' empty_document)))))) = 0"
proof -
  let ?s = "useScriptTag ''a.js'' empty_document"
  have u: "Unload \<notin> set [Dispatch 0 ''load'', Load False]"
    by simp
  have c: "cached_promise ?s = None"
    by (simp add: useScriptTag_def)
  have n: "next_promise ?s = 0"
    by (simp add: useScriptTag_def)
  note t = load_memoized_until_unload [OF u, of ?s default_options True False]
  from t c have "load default_options True ?s =
      (next_promise ?s,
       (snd (loadScript default_options True ?s))\<lparr>cached_promise := Some (next_promise ?s)\<rparr>)"
    by blast
  then have f: "fst (load default_options True ?s) = 0"
    by (simp only: n fst_conv)
  from t c have "next_promise (snd (load default_options True ?s)) = Suc (next_promise ?s)"
    by blast
  then have np: "next_promise (snd (load default_options True ?s)) = 1"
    by (simp only: n One_nat_def)
  from t have cp: "cached_promise (snd (load default_options True ?s))
      = Some (fst (load default_options True ?s))"
    by blast
  from t have "fst (run default_options [Dispatch 0 ''load'', Load False]
        (snd (load default_options True ?s)))
      = map (\<lambda>a. case a of Load x \<Rightarrow> Returned (fst (load default_options True ?s)) | _ \<Rightarrow> Done)
          [Dispatch 0 ''load'', Load False]"
    by blast
  then have rs: "fst (run default_options [Dispatch 0 ''load'', Load False]
        (snd (load default_options True ?s))) = [Done, Returned 0]"
    by (simp only: f list.map action.case)
  from t have "load default_options False
      (snd (run default_options [Dispatch 0 ''load'', Load False]
         (snd (load default_options True ?s))))
      = (fst (load default_options True ?s),
         snd (run default_options [Dispatch 0 ''load'', Load False]
           (snd (load default_options True ?s))))"
    by blast
  then have l2: "fst (load default_options False
      (snd (run default_options [Dispatch 0 ''load'', Load False]
         (snd (load default_options True ?s))))) = 0"
    by (simp only: f fst_conv)
  from u c f np cp rs l2 show ?thesis
    by (simp only: f simp_thms)
qed

subsection \<open>No host document\<close>

text \<open>
  C3. In every state a loader without a host document can reach, \<open>load\<close> returns a
  promise that is fulfilled with \<open>false\<close> (it is not rejected), and \<open>unload\<close> returns
  normally and leaves the state as it was.
\<close>

theorem no_document_load_unload:
  assumes "reachable opts s" and "document s = None"
  shows "promises (snd (load opts w s)) (fst (load opts w s)) = Fulfilled (Bool False)
       \<and> unload s = (None, s)"
proof (cases "cached_promise s")
  case None
  then show ?thesis using assms(2)
    by (simp add: load_def split_beta loadScript_no_document unload_no_document)
next
  case (Some p)
  with reachable_no_document_inv [OF assms(1)] assms(2) show ?thesis
    by (simp add: no_document_inv_def load_cached unload_no_document)
qed

theorem no_document_load_unload_witness:
  "reachable default_options (snd (step default_options (Load True) (useScriptTag ''a.js'' no_document))) \<and>
   document (snd (step default_options (Load True) (useScriptTag ''a.js'' no_document))) = None \<and>
   promises
     (snd (load default_options True
        (snd (step default_options (Load True) (useScriptTag ''a.js'' no_document)))))
     (fst (load default_options True
        (snd (step default_options (Load True) (useScriptTag ''a.js'' no_document)))))
     = Fulfilled (Bool False) \<and>
   unload (snd (step default_options (Load True) (useScriptTag ''a.js'' no_document)))
     = (None, snd (step default_options (Load True) (useScriptTag ''a.js'' no_document)))"
proof -
  have "pristine no_document"
    by (simp add: pristine_def well_formed_def no_document_def)
  then have r: "reachable default_options
      (snd (step default_options (Load True) (useScriptTag ''a.js'' no_document)))"
    by (intro reachable_step reachable_init)
  have d: "document (snd (step default_options (Load True) (useScriptTag ''a.js'' no_document))) = None"
    by (simp del: step.simps add: useScriptTag_def no_document_def)
  from no_document_load_unload [OF r d, of True] r d show ?thesis
    by simp
qed

subsection \<open>Running the loader on the example inputs\<close>

lemmas eval_defs =
  load_def loadScript_def unload_def new_promise_def resolve_def reject_def
  resolveWithElement_def dispatchEvent_def split_beta Let_def useScriptTag_def
  querySelector_def script_selector_def plain_def strict_engine_def quoted_src_def
  script_with_src_def getAttribute_def hasAttribute_def setAttribute_def
  setBoolean_def configure_script_def truthy_def nodes_def createElement_def
  useEventListener_def update_element_def appendChild_def removeChild_def isConnected_def
  default_options_def empty_document_def no_document_def empty_element_def
  script_element_def page_with_script_def page_with_two_scripts_def page_with_script_in_body_def

subsection \<open>Clearing the cached promise\<close>

text \<open>
  C4, as amended. With a host document, \<open>unload\<close> always clears the cached promise, and
  the \<open>load\<close> that follows starts again with a new promise. Without a host document
  \<open>unload\<close> returns at once and leaves the cached promise as it is. No other step (a
  \<open>load\<close>, an event, a change of \<open>src\<close>) clears or replaces a cached promise.
\<close>

theorem cached_promise_cleared_by_unload:
  "(document s \<noteq> None \<longrightarrow>
      cached_promise (snd (unload s)) = None \<and>
      fst (load opts w (snd (unload s))) = next_promise s \<and>
      next_promise (snd (load opts w (snd (unload s)))) = Suc (next_promise s)) \<and>
   (document s' = None \<longrightarrow> unload s' = (None, s')) \<and>
   (a \<noteq> Unload \<longrightarrow> cached_promise s'' \<noteq> None \<longrightarrow>
      cached_promise (snd (step opts a s'')) = cached_promise s'')"
proof (intro conjI impI)
  assume d: "document s \<noteq> None"
  then show c: "cached_promise (snd (unload s)) = None"
    by (simp add: unload_resets)
  then show "fst (load opts w (snd (unload s))) = next_promise s"
    by (simp add: load_def split_beta)
  from c show "next_promise (snd (load opts w (snd (unload s)))) = Suc (next_promise s)"
    by (simp add: load_def split_beta)
next
  assume "document s' = None"
  then show "unload s' = (None, s')" by (rule unload_no_document)
next
  assume "a \<noteq> Unload" and "cached_promise s'' \<noteq> None"
  then show "cached_promise (snd (step opts a s'')) = cached_promise s''"
    using step_cached(2) [of a s'' _ opts] by auto
qed

theorem cached_promise_cleared_by_unload_witness:
  "document (snd (load default_options True (useScriptTag ''a.js'' empty_document))) \<noteq> None \<and>
   cached_promise (snd (load default_options True (useScriptTag ''a.js'' empty_document))) \<noteq> None \<and>
   cached_promise (snd (unload (snd (load default_options True (useScriptTag ''a.js'' empty_document))))) = None \<and>
   fst (load default_options True
     (snd (unload (snd (load default_options True (useScriptTag ''a.js'' empty_document)))))) = 1 \<and>
   document (snd (load default_options True (useScriptTag ''a.js'' no_document))) = None \<and>
   unload (snd (load default_options True (useScriptTag ''a.js'' no_document)))
     = (None, snd (load default_options True (useScriptTag ''a.js'' no_document))) \<and>
   Dispatch 0 ''load'' \<noteq> Unload \<and>
   cached_promise (snd (step default_options (Dispatch 0 ''load'')
       (snd (load default_options True (useScriptTag ''a.js'' empty_document))))) = Some 0"
proof -
  let ?s = "snd (load default_options True (useScriptTag ''a.js'' empty_document))"
  let ?s' = "snd (load default_options True (useScriptTag ''a.js'' no_document))"
  have d: "document ?s \<noteq> None"
    by (simp add: useScriptTag_def empty_document_def)
  have c: "cached_promise ?s = Some 0"
    by (simp add: load_def split_beta useScriptTag_def)
  have n: "next_promise ?s = 1"
    by (simp add: load_def split_beta useScriptTag_def)
  have d': "document ?s' = None"
    by (simp add: useScriptTag_def no_document_def)
  have a: "Dispatch 0 ''load'' \<noteq> Unload"
    by simp
  from cached_promise_cleared_by_unload
    [of ?s default_options True ?s' "Dispatch 0 ''load''" ?s] d c d' a
  show ?thesis
    by (simp only: n) simp
qed

text \<open>
  As stated, C4 fails: without a host document, \<open>unload\<close> after \<open>load\<close> leaves the
  promise of that \<open>load\<close> cached.
\<close>

theorem unload_without_document_keeps_promise:
  "document (snd (load default_options True (useScriptTag ''a.js'' no_document))) = None \<and>
   cached_promise (snd (unload (snd (load default_options True (useScriptTag ''a.js'' no_document)))))
     = Some 0"
  by (simp add: unload_no_document useScriptTag_def no_document_def load_def split_beta)

subsection \<open>What loadScript does in a document\<close>


lemma querySelector_Some_nodes:
  "querySelector engine els t v = Inr (Some e) \<Longrightarrow> e \<in> set (nodes t)"
  by (auto simp add: querySelector_def find_Some_iff split: sum.splits)

lemma loadScript_found:
  assumes "document s = Some t"
    and "querySelector (selector_engine s) (elements s) t (src s) = Inr (Some el)"
  shows "document (snd (loadScript opts w s)) = document s"
    and "next_element (snd (loadScript opts w s)) = next_element s"
    and "promises (snd (loadScript opts w s)) (next_promise s) =
           (if hasAttribute (elements s el) ''data-loaded'' \<or> \<not> w then Fulfilled (El el) else Pending)"
    and "scriptTag (snd (loadScript opts w s)) =
           (if hasAttribute (elements s el) ''data-loaded'' \<or> \<not> w then Some el else scriptTag s)"
  using assms
  by (auto simp add: loadScript_def split_beta Let_def resolveWithElement_promises)

lemma loadScript_created:
  assumes "document s = Some t"
    and "querySelector (selector_engine s) (elements s) t (src s) = Inr None"
  shows "document (snd (loadScript opts w s)) = Some (appendChild (next_element s) t)"
    and "next_element (snd (loadScript opts w s)) = Suc (next_element s)"
    and "promises (snd (loadScript opts w s)) (next_promise s) =
           (if w then Pending else Fulfilled (El (next_element s)))"
    and "scriptTag (snd (loadScript opts w s)) = (if w then scriptTag s else Some (next_element s))"
  using assms
  by (simp_all add: loadScript_def split_beta Let_def resolveWithElement_promises)

lemma loadScript_thrown:
  assumes "document s = Some t"
    and "querySelector (selector_engine s) (elements s) t (src s) = Inl err"
  shows "document (snd (loadScript opts w s)) = document s"
    and "next_element (snd (loadScript opts w s)) = next_element s"
    and "elements (snd (loadScript opts w s)) = elements s"
    and "promises (snd (loadScript opts w s)) (next_promise s) = Rejected (Thrown err)"
    and "scriptTag (snd (loadScript opts w s)) = scriptTag s"
  using assms
  by (simp_all add: loadScript_def split_beta reject_promises)

lemma load_initiates:
  "cached_promise s = None \<Longrightarrow>
   load opts w s = (next_promise s, (snd (loadScript opts w s))\<lparr>cached_promise := Some (next_promise s)\<rparr>)"
  by (simp add: load_def split_beta)




text \<open>
  C6, as amended. When \<open>load\<close> is called with no promise cached, and the script element
  that the query finds (for a source that stands for itself in the selector, the first
  script element of the document with that source) is marked ready (it has the attribute
  \<open>data-loaded\<close>), the promise returned is fulfilled on return with that element, which
  becomes the value of \<open>scriptTag\<close>; no element is created and the document is as before.
\<close>

theorem ready_script_is_reused:
  assumes "cached_promise s = None" and "document s = Some t"
    and "querySelector (selector_engine s) (elements s) t (src s) = Inr (Some el)"
    and "hasAttribute (elements s el) ''data-loaded''"
  shows "promises (snd (load opts w s)) (fst (load opts w s)) = Fulfilled (El el) \<and>
         scriptTag (snd (load opts w s)) = Some el \<and>
         next_element (snd (load opts w s)) = next_element s \<and>
         document (snd (load opts w s)) = document s"
  using loadScript_found [OF assms(2,3), of opts w] assms(4)
  by (simp add: load_initiates [OF assms(1)])

theorem ready_script_is_reused_witness:
  "cached_promise (useScriptTag ''a.js'' (page_with_script ''a.js'' True)) = None \<and>
   document (useScriptTag ''a.js'' (page_with_script ''a.js'' True)) = Some \<lparr>head = [0], body = []\<rparr> \<and>
   querySelector (selector_engine (useScriptTag ''a.js'' (page_with_script ''a.js'' True)))
     (elements (useScriptTag ''a.js'' (page_with_script ''a.js'' True)))
     \<lparr>head = [0], body = []\<rparr> (src (useScriptTag ''a.js'' (page_with_script ''a.js'' True)))
     = Inr (Some 0) \<and>
   hasAttribute (elements (useScriptTag ''a.js'' (page_with_script ''a.js'' True)) 0) ''data-loaded'' \<and>
   promises (snd (load default_options True (useScriptTag ''a.js'' (page_with_script ''a.js'' True)))) 0
     = Fulfilled (El 0) \<and>
   next_element (snd (load default_options True (useScriptTag ''a.js'' (page_with_script ''a.js'' True)))) = 1"
proof -
  let ?s = "useScriptTag ''a.js'' (page_with_script ''a.js'' True)"
  have c: "cached_promise ?s = None"
    by (simp add: useScriptTag_def)
  have d: "document ?s = Some \<lparr>head = [0], body = []\<rparr>"
    by (simp add: useScriptTag_def page_with_script_def)
  have q: "querySelector (selector_engine ?s) (elements ?s) \<lparr>head = [0], body = []\<rparr> (src ?s)
      = Inr (Some 0)"
    by (simp add: eval_defs)
  have h: "hasAttribute (elements ?s 0) ''data-loaded''"
    by (simp add: eval_defs)
  have f: "fst (load default_options True ?s) = 0"
    by (simp add: load_initiates [OF c]) (simp add: useScriptTag_def)
  have n: "next_element ?s = 1"
    by (simp add: useScriptTag_def page_with_script_def)
  from ready_script_is_reused [OF c d q h, of default_options True] c d q h show ?thesis
    by (simp only: f n)
qed

text \<open>
  As stated, C6 fails. A loader whose \<open>load\<close> for \<open>a.js\<close> is pending and whose source
  has changed to \<open>b.js\<close>, a script that is in the document and marked ready, returns
  from \<open>load\<close> the cached promise, which is pending. And in a page with two script
  elements with the source, the second marked ready and the first not, the query finds the
  first: the promise of \<open>load\<close> waits for the \<open>load\<close> event of the first. And for
  the source \<open>a"b.js\<close>, in a page with a script element with that source marked ready,
  the query throws and the promise of \<open>load\<close> is rejected with the syntax error.
\<close>

theorem cached_load_ignores_ready_script:
  "document (snd (run default_options [Load True, Set_src ''b.js'']
       (useScriptTag ''a.js'' (page_with_script ''b.js'' True)))) = Some \<lparr>head = [0, 1], body = []\<rparr> \<and>
   script_with_src
     (elements (snd (run default_options [Load True, Set_src ''b.js'']
        (useScriptTag ''a.js'' (page_with_script ''b.js'' True)))))
     (src (snd (run default_options [Load True, Set_src ''b.js'']
        (useScriptTag ''a.js'' (page_with_script ''b.js'' True))))) 0 \<and>
   hasAttribute
     (elements (snd (run default_options [Load True, Set_src ''b.js'']
        (useScriptTag ''a.js'' (page_with_script ''b.js'' True)))) 0) ''data-loaded'' \<and>
   fst (run default_options [Load True, Set_src ''b.js'', Load True]
       (useScriptTag ''a.js'' (page_with_script ''b.js'' True))) = [Returned 0, Done, Returned 0] \<and>
   promises (snd (run default_options [Load True, Set_src ''b.js'', Load True]
       (useScriptTag ''a.js'' (page_with_script ''b.js'' True)))) 0 = Pending \<and>
   isConnected (useScriptTag ''a.js'' (page_with_two_scripts ''a.js'' True)) 1 \<and>
   script_with_src (elements (useScriptTag ''a.js'' (page_with_two_scripts ''a.js'' True))) ''a.js'' 1 \<and>
   hasAttribute (elements (useScriptTag ''a.js'' (page_with_two_scripts ''a.js'' True)) 1)
     ''data-loaded'' \<and>
   promises (snd (load default_options True
       (useScriptTag ''a.js'' (page_with_two_scripts ''a.js'' True)))) 0 = Pending \<and>
   script_with_src (elements (useScriptTag quoted_src (page_with_script quoted_src True)))
     quoted_src 0 \<and>
   hasAttribute (elements (useScriptTag quoted_src (page_with_script quoted_src True)) 0)
     ''data-loaded'' \<and>
   promises (snd (load default_options True
       (useScriptTag quoted_src (page_with_script quoted_src True)))) 0
     = Rejected (Thrown SyntaxError)"
  by (simp add: eval_defs)

subsection \<open>Calls of load before the promise is settled\<close>

text \<open>
  C1, as amended. After a call of \<open>load\<close>, every call of \<open>load\<close> that follows without an
  \<open>unload\<close> in between (whether or not the promise has been settled, and whatever
  events and changes of \<open>src\<close> come in between) returns the promise of the first call, so
  all of them see the one outcome of that promise. All these calls together create at most
  one script element: exactly one when the first call found no cached promise, a host
  document, and a query that returned without a match, and none otherwise.
\<close>

theorem concurrent_loads_share_promise:
  assumes "Unload \<notin> set acts"
  shows "fst (run opts acts (snd (load opts w s)))
           = map (\<lambda>a. case a of Load x \<Rightarrow> Returned (fst (load opts w s)) | _ \<Rightarrow> Done) acts \<and>
         next_element (snd (run opts acts (snd (load opts w s))))
           = next_element s + (if creates_element s then 1 else 0)"
proof -
  have "next_element (snd (load opts w s)) = next_element s + (if creates_element s then 1 else 0)"
    by (simp add: load_def split_beta creates_element_def loadScript_next_element
        split: option.split)
  with run_cached [OF assms, of "snd (load opts w s)" "fst (load opts w s)" opts]
  show ?thesis by simp
qed

theorem concurrent_loads_share_promise_witness:
  "Unload \<notin> set [Load True, Load False, Dispatch 0 ''click''] \<and>
   fst (run default_options [Load True, Load False, Dispatch 0 ''click'']
          (snd (load default_options True (useScriptTag ''a.js'' empty_document))))
     = [Returned 0, Returned 0, Done] \<and>
   creates_element (useScriptTag ''a.js'' empty_document) \<and>
   next_element (snd (run default_options [Load True, Load False, Dispatch 0 ''click'']
          (snd (load default_options True (useScriptTag ''a.js'' empty_document))))) = 1"
proof -
  let ?s = "useScriptTag ''a.js'' empty_document"
  have c: "creates_element ?s"
    by (simp add: creates_element_def eval_defs)
  have f: "fst (load default_options True ?s) = 0"
    by (simp add: load_def split_beta useScriptTag_def)
  have n: "next_element ?s = 0"
    by (simp add: useScriptTag_def empty_document_def)
  have u: "Unload \<notin> set [Load True, Load False, Dispatch 0 ''click'']"
    by simp
  from concurrent_loads_share_promise [OF u, of default_options True ?s] c u show ?thesis
    by (simp only: f n) simp
qed

text \<open>
  As stated, C1 fails. In a page that holds a script element with the source, not marked
  ready, two calls of \<open>load\<close> return the same pending promise and no element is created.
  In an empty document, a \<open>load\<close> that follows an \<open>unload\<close> returns a second promise
  and creates a second element, while the promise of the first \<open>load\<close> is still pending.
  And for the source \<open>a"b.js\<close> in an empty document the query throws and \<open>load\<close>
  creates no element.
\<close>

theorem existing_script_not_created:
  "fst (run default_options [Load True, Load True] (useScriptTag ''a.js'' (page_with_script ''a.js'' False)))
     = [Returned 0, Returned 0] \<and>
   promises (snd (run default_options [Load True, Load True]
       (useScriptTag ''a.js'' (page_with_script ''a.js'' False)))) 0 = Pending \<and>
   next_element (useScriptTag ''a.js'' (page_with_script ''a.js'' False)) = 1 \<and>
   next_element (snd (run default_options [Load True, Load True]
       (useScriptTag ''a.js'' (page_with_script ''a.js'' False)))) = 1 \<and>
   fst (run default_options [Load True, Unload, Load True] (useScriptTag ''a.js'' empty_document))
     = [Returned 0, Done, Returned 1] \<and>
   promises (snd (run default_options [Load True, Unload, Load True]
       (useScriptTag ''a.js'' empty_document))) 0 = Pending \<and>
   next_element (snd (run default_options [Load True, Unload, Load True]
       (useScriptTag ''a.js'' empty_document))) = 2 \<and>
   next_element (snd (load default_options True (useScriptTag quoted_src empty_document))) = 0"
  by (simp add: eval_defs)

subsection \<open>unload, then load\<close>




lemma unload_document:
  "document s = Some t \<Longrightarrow>
   unload s =
     (case querySelector (selector_engine s) (elements s) t (src s) of
        Inl err \<Rightarrow> (Some err, s\<lparr>cached_promise := None, scriptTag := None\<rparr>)
      | Inr None \<Rightarrow> (None, s\<lparr>cached_promise := None, scriptTag := None\<rparr>)
      | Inr (Some el) \<Rightarrow>
          (if el \<in> set (head t)
           then (None, s\<lparr>cached_promise := None, scriptTag := None,
                         document := Some (t\<lparr>head := remove1 el (head t)\<rparr>)\<rparr>)
           else (Some NotFoundError, s\<lparr>cached_promise := None, scriptTag := None\<rparr>)))"
  by (cases "scriptTag s")
    (simp_all add: unload_def Let_def removeChild_def split: option.split sum.split)


lemma setAttribute_localName [simp]: "localName (setAttribute n v e) = localName e"
  by (simp add: setAttribute_def)

lemma setBoolean_localName [simp]: "localName (setBoolean n b e) = localName e"
  by (simp add: setBoolean_def)

lemma fold_setAttribute_localName [simp]:
  "localName (fold (\<lambda>(n, x). setAttribute n x) as e) = localName e"
  by (induction as arbitrary: e) (simp_all add: split_beta)

lemma configure_script_localName [simp]: "localName (configure_script opts v e) = localName e"
  by (simp add: configure_script_def Let_def)





subsection \<open>Invariants of the states a loader reaches\<close>

lemma setAttribute_listeners [simp]: "listeners (setAttribute n v e) = listeners e"
  by (simp add: setAttribute_def)

lemma setBoolean_listeners [simp]: "listeners (setBoolean n b e) = listeners e"
  by (simp add: setBoolean_def)

lemma fold_setAttribute_listeners [simp]:
  "listeners (fold (\<lambda>(n, x). setAttribute n x) as e) = listeners e"
  by (induction as arbitrary: e) (simp_all add: split_beta)

lemma configure_script_listeners [simp]: "listeners (configure_script opts v e) = listeners e"
  by (simp add: configure_script_def Let_def)

lemma query_result_cases [case_names thrown missing found]:
  fixes q :: "error + nat option"
  obtains err where "q = Inl err" | "q = Inr None" | el where "q = Inr (Some el)"
proof (cases q)
  case (Inl err)
  then show ?thesis by (rule that(1))
next
  case (Inr r)
  then show ?thesis by (cases r) (auto intro: that(2,3))
qed

lemma loadScript_listeners:
  assumes "document s = Some t"
    and "querySelector (selector_engine s) (elements s) t (src s) = Inr found"
  shows "listeners (elements (snd (loadScript opts w s)) e) =
           (if e = script_target s found
            then (case found of None \<Rightarrow> [] | Some x \<Rightarrow> listeners (elements s e)) @
                 [(''error'', Reject_handler (next_promise s)),
                  (''abort'', Reject_handler (next_promise s)),
                  (''load'', Load_handler (next_promise s))]
            else listeners (elements s e))"
  using assms
  by (simp add: loadScript_def split_beta Let_def script_target_def useEventListener_def
      split: option.split)

lemma loadScript_elements_no_document:
  "document s = None \<Longrightarrow> elements (snd (loadScript opts w s)) = elements s"
  by (simp add: loadScript_def split_beta)

lemma well_formed_iff:
  "well_formed d =
     (\<forall>t. document d = Some t \<longrightarrow> distinct (nodes t) \<and> (\<forall>e \<in> set (nodes t). e < next_element d))"
  by (simp add: well_formed_def list_all_iff split: option.split)

lemma appendChild_fresh:
  assumes "distinct (nodes t)" and "\<forall>e \<in> set (nodes t). e < n"
  shows "distinct (nodes (appendChild n t))" and "\<forall>e \<in> set (nodes (appendChild n t)). e < Suc n"
proof -
  from assms(2) have "n \<notin> set (head t)" and "n \<notin> set (body t)"
    by (auto simp add: nodes_def)
  then have a: "appendChild n t = \<lparr>head = head t @ [n], body = body t\<rparr>"
    by (simp add: appendChild_def)
  from assms \<open>n \<notin> set (head t)\<close> \<open>n \<notin> set (body t)\<close>
  show "distinct (nodes (appendChild n t))"
    by (auto simp add: a nodes_def)
  from assms(2) show "\<forall>e \<in> set (nodes (appendChild n t)). e < Suc n"
    by (auto simp add: a nodes_def less_SucI)
qed

lemma well_formed_load: "well_formed s \<Longrightarrow> well_formed (snd (load opts w s))"
proof (cases "cached_promise s")
  case (Some p)
  assume "well_formed s"
  with Some show ?thesis by (simp add: load_cached)
next
  case None
  assume wf: "well_formed s"
  show ?thesis
  proof (cases "document s")
    case d: None
    then have "document (snd (load opts w s)) = None" by simp
    then show ?thesis by (simp only: well_formed_iff) simp
  next
    case d: (Some t)
    from wf d have t: "distinct (nodes t)" "\<forall>e \<in> set (nodes t). e < next_element s"
      by (simp_all add: well_formed_iff)
    show ?thesis
    proof (cases "querySelector (selector_engine s) (elements s) t (src s)"
        rule: query_result_cases)
      case q: (thrown err)
      from t d loadScript_thrown(1,2) [OF d q, of opts w] show ?thesis
        by (auto simp add: load_initiates [OF None] well_formed_iff)
    next
      case q: missing
      from appendChild_fresh [OF t] show ?thesis
        using loadScript_created(1,2) [OF d q, of opts w]
        by (simp add: load_initiates [OF None] well_formed_iff)
    next
      case q: (found el)
      from t d loadScript_found(1,2) [OF d q, of opts w] show ?thesis
        by (auto simp add: load_initiates [OF None] well_formed_iff)
    qed
  qed
qed

lemma well_formed_unload: "well_formed s \<Longrightarrow> well_formed (snd (unload s))"
proof (cases "document s")
  case None
  assume "well_formed s"
  with None show ?thesis by (simp add: unload_no_document)
next
  case (Some t)
  assume "well_formed s"
  with Some have "distinct (nodes t)" and "\<forall>e \<in> set (nodes t). e < next_element s"
    by (simp_all add: well_formed_iff)
  then show ?thesis using Some
    by (auto simp add: unload_document [OF Some] well_formed_iff nodes_def
        split: option.split sum.split dest: notin_set_remove1)
qed

lemma well_formed_step: "well_formed s \<Longrightarrow> well_formed (snd (step opts a s))"
  by (cases a)
    (simp_all del: step.simps(1,2) add: well_formed_load well_formed_unload,
     simp_all add: well_formed_iff)

lemma loadScript_listeners_cases:
  assumes "well_formed s"
  shows "\<forall>e < next_element s. set (listeners (elements s e))
            \<subseteq> set (listeners (elements (snd (loadScript opts w s)) e))"
    and "\<forall>e < next_element (snd (loadScript opts w s)).
           \<forall>x \<in> set (listeners (elements (snd (loadScript opts w s)) e)).
             (e < next_element s \<and> x \<in> set (listeners (elements s e))) \<or>
             (x \<in> set (new_listeners (next_promise s)) \<and>
              set (new_listeners (next_promise s))
                \<subseteq> set (listeners (elements (snd (loadScript opts w s)) e)))"
    and "promises (snd (loadScript opts w s)) (next_promise s) = Pending \<longrightarrow>
           (\<exists>e < next_element (snd (loadScript opts w s)).
              awaits (snd (loadScript opts w s)) (next_promise s) e)"
proof -
  let ?s' = "snd (loadScript opts w s)"
  show "\<forall>e < next_element s. set (listeners (elements s e)) \<subseteq> set (listeners (elements ?s' e))"
  proof (cases "document s")
    case None
    then show ?thesis by (simp add: loadScript_elements_no_document)
  next
    case (Some t)
    show ?thesis
    proof (cases "querySelector (selector_engine s) (elements s) t (src s)")
      case (Inl err)
      then show ?thesis by (simp add: loadScript_thrown(3) [OF Some])
    next
      case (Inr found)
      show ?thesis
        by (auto simp add: loadScript_listeners [OF Some Inr] script_target_def
            split: option.splits)
    qed
  qed
  show "\<forall>e < next_element ?s'. \<forall>x \<in> set (listeners (elements ?s' e)).
             (e < next_element s \<and> x \<in> set (listeners (elements s e))) \<or>
             (x \<in> set (new_listeners (next_promise s)) \<and>
              set (new_listeners (next_promise s)) \<subseteq> set (listeners (elements ?s' e)))"
  proof (cases "document s")
    case None
    then show ?thesis
      by (simp add: loadScript_elements_no_document loadScript_next_element)
  next
    case (Some t)
    show ?thesis
    proof (cases "querySelector (selector_engine s) (elements s) t (src s)"
        rule: query_result_cases)
      case q: (thrown err)
      show ?thesis
        by (simp add: loadScript_thrown(2,3) [OF Some q])
    next
      case q: missing
      show ?thesis
        using loadScript_created(2) [OF Some q, of opts w]
        by (auto simp add: loadScript_listeners [OF Some q] script_target_def new_listeners_def
            less_Suc_eq)
    next
      case q: (found el)
      show ?thesis
        using loadScript_found(2) [OF Some q, of opts w]
        by (auto simp add: loadScript_listeners [OF Some q] script_target_def new_listeners_def)
    qed
  qed
  show "promises ?s' (next_promise s) = Pending \<longrightarrow>
           (\<exists>e < next_element ?s'. awaits ?s' (next_promise s) e)"
  proof (cases "document s")
    case None
    then show ?thesis by (simp add: loadScript_no_document)
  next
    case (Some t)
    show ?thesis
    proof (cases "querySelector (selector_engine s) (elements s) t (src s)"
        rule: query_result_cases)
      case q: (thrown err)
      show ?thesis
        by (simp add: loadScript_thrown(4) [OF Some q])
    next
      case q: missing
      have "awaits ?s' (next_promise s) (next_element s)"
        by (simp add: awaits_def loadScript_listeners [OF Some q] script_target_def)
      then show ?thesis
        using loadScript_created(2) [OF Some q, of opts w] by auto
    next
      case q: (found el)
      have "awaits ?s' (next_promise s) el"
        by (simp add: awaits_def loadScript_listeners [OF Some q] script_target_def)
      moreover have "el < next_element s"
        using assms Some querySelector_Some_nodes [OF q] by (simp add: well_formed_iff)
      ultimately show ?thesis
        using loadScript_found(2) [OF Some q, of opts w] by auto
    qed
  qed
qed

lemma listener_ok_mono:
  assumes "listener_ok s e x" and "next_promise s \<le> next_promise s'"
    and "set (listeners (elements s e)) \<subseteq> set (listeners (elements s' e))"
  shows "listener_ok s' e x"
  using assms by (cases "snd x") (auto simp add: listener_ok_def)

lemma listener_ok_new:
  assumes "x \<in> set (new_listeners p)" and "p < next_promise s'"
    and "set (new_listeners p) \<subseteq> set (listeners (elements s' e))"
  shows "listener_ok s' e x"
  using assms by (auto simp add: listener_ok_def new_listeners_def)

lemma awaits_mono:
  "awaits s p e \<Longrightarrow> set (listeners (elements s e)) \<subseteq> set (listeners (elements s' e)) \<Longrightarrow>
   awaits s' p e"
  by (auto simp add: awaits_def)

lemma loadScript_next_element_mono: "next_element s \<le> next_element (snd (loadScript opts w s))"
  by (simp add: loadScript_next_element split: option.split)

lemma listeners_inv_loadScript:
  assumes "well_formed s" and "listeners_inv s"
  shows "listeners_inv (snd (loadScript opts w s))"
proof -
  let ?s' = "snd (loadScript opts w s)"
  note c = loadScript_listeners_cases [OF assms(1), of opts w]
  from assms(2) have A: "\<forall>e < next_element s. \<forall>x \<in> set (listeners (elements s e)). listener_ok s e x"
    and B: "\<forall>p < next_promise s. promises s p = Pending \<longrightarrow> (\<exists>e < next_element s. awaits s p e)"
    by (simp_all add: listeners_inv_def)
  have "listener_ok ?s' e x"
    if e: "e < next_element ?s'" and x: "x \<in> set (listeners (elements ?s' e))" for e x
  proof -
    from c(2) e x consider
      (old) "e < next_element s" "x \<in> set (listeners (elements s e))"
    | (new) "x \<in> set (new_listeners (next_promise s))"
        "set (new_listeners (next_promise s)) \<subseteq> set (listeners (elements ?s' e))"
      by blast
    then show ?thesis
    proof cases
      case old
      with A have "listener_ok s e x" by simp
      moreover have "next_promise s \<le> next_promise ?s'" by simp
      moreover from c(1) old(1)
      have "set (listeners (elements s e)) \<subseteq> set (listeners (elements ?s' e))" by simp
      ultimately show ?thesis by (rule listener_ok_mono)
    next
      case new
      have "next_promise s < next_promise ?s'" by simp
      with new(1) show ?thesis using new(2) by (rule listener_ok_new)
    qed
  qed
  moreover have "\<exists>e < next_element ?s'. awaits ?s' p e"
    if p: "p < next_promise ?s'" and pe: "promises ?s' p = Pending" for p
  proof (cases "p = next_promise s")
    case True
    with c(3) pe show ?thesis by simp
  next
    case False
    with p have lt: "p < next_promise s" by simp
    with pe False have "promises s p = Pending"
      by (simp add: loadScript_promises_other)
    with B lt obtain e where e: "e < next_element s" "awaits s p e" by blast
    with c(1) have "awaits ?s' p e" by (simp add: awaits_mono)
    moreover have "e < next_element ?s'"
      using e(1) loadScript_next_element_mono [of s opts w] by linarith
    ultimately show ?thesis by blast
  qed
  ultimately show ?thesis
    by (simp add: listeners_inv_def)
qed

lemma listeners_inv_transfer:
  assumes "listeners_inv s"
    and "next_element s' = next_element s" and "next_promise s' = next_promise s"
    and "\<And>e. listeners (elements s' e) = listeners (elements s e)"
    and "\<And>p. promises s' p = Pending \<Longrightarrow> promises s p = Pending"
  shows "listeners_inv s'"
proof -
  have "listener_ok s' e x = listener_ok s e x" for e x
    using assms(3,4) by (cases "snd x") (simp_all add: listener_ok_def)
  with assms show ?thesis
    by (auto simp add: listeners_inv_def awaits_def)
qed

lemma dispatchEvent_pending:
  "promises (dispatchEvent el ev s) p = Pending \<Longrightarrow> promises s p = Pending"
  using dispatchEvent_settled [of s p el ev] by auto

lemma listeners_inv_step:
  assumes "well_formed s" and "listeners_inv s"
  shows "listeners_inv (snd (step opts a s))"
proof (cases a)
  case (Load w)
  show ?thesis
  proof (cases "cached_promise s")
    case None
    have "listeners_inv (snd (load opts w s))"
      using listeners_inv_loadScript [OF assms, of opts w]
      by (rule listeners_inv_transfer) (simp_all add: load_initiates [OF None])
    with Load show ?thesis by (simp del: step.simps)
  next
    case (Some p)
    with Load assms(2) show ?thesis by (simp del: step.simps add: load_cached)
  qed
next
  case Unload
  have "listeners_inv (snd (unload s))"
    using assms(2) by (rule listeners_inv_transfer) simp_all
  with Unload show ?thesis by (simp del: step.simps)
next
  case (Dispatch el ev)
  have "listeners_inv (dispatchEvent el ev s)"
    using assms(2) by (rule listeners_inv_transfer) (simp_all add: dispatchEvent_pending)
  with Dispatch assms(2) show ?thesis by simp
next
  case (Set_src v)
  have "listeners_inv (s\<lparr>src := v\<rparr>)"
    using assms(2) by (rule listeners_inv_transfer) simp_all
  with Set_src show ?thesis by simp
qed

lemma reachable_invariants: "reachable opts s \<Longrightarrow> well_formed s \<and> listeners_inv s"
proof (induction rule: reachable.induct)
  case (reachable_init d v)
  then have "well_formed d" and "\<forall>e < next_element d. listeners (elements d e) = []"
    by (simp_all add: pristine_def list_all_iff)
  then show ?case
    by (simp add: well_formed_iff listeners_inv_def useScriptTag_def)
next
  case (reachable_step s a)
  then show ?case
    by (simp add: well_formed_step listeners_inv_step)
qed

lemma fold_reject_handlers:
  assumes "\<forall>l \<in> set ls. \<exists>q. l = Reject_handler q"
  shows "promises (fold (run_listener el ev) ls s) p =
           (if promises s p = Pending \<and> Reject_handler p \<in> set ls
            then Rejected (Event ev el) else promises s p)"
  using assms
proof (induction ls arbitrary: s)
  case Nil
  then show ?case by simp
next
  case (Cons l ls)
  then obtain q where l: "l = Reject_handler q" by auto
  from Cons.prems have "\<forall>l \<in> set ls. \<exists>q. l = Reject_handler q" by simp
  note IH = Cons.IH [OF this, of "reject q (Event ev el) s"]
  show ?case
    by (auto simp add: l IH reject_promises)
qed

lemma dispatch_rejects:
  assumes "well_formed s" and "listeners_inv s" and "e < next_element s"
    and "awaits s p e" and "promises s p = Pending" and "ev = ''error'' \<or> ev = ''abort''"
  shows "promises (dispatchEvent e ev s) p = Rejected (Event ev e)"
proof -
  let ?ls = "map snd (filter (\<lambda>x. fst x = ev) (listeners (elements s e)))"
  from assms(2,3) have ok: "\<forall>x \<in> set (listeners (elements s e)). listener_ok s e x"
    by (simp add: listeners_inv_def)
  have "\<forall>l \<in> set ?ls. \<exists>q. l = Reject_handler q"
  proof
    fix l assume "l \<in> set ?ls"
    then obtain x where x: "x \<in> set (listeners (elements s e))" "fst x = ev" "snd x = l"
      by auto
    with ok have "listener_ok s e x" by simp
    with x assms(6) show "\<exists>q. l = Reject_handler q"
      by (cases l) (auto simp add: listener_ok_def)
  qed
  moreover have "Reject_handler p \<in> set ?ls"
  proof -
    from assms(4) ok have "listener_ok s e (''load'', Load_handler p)"
      by (simp add: awaits_def)
    then have "(ev, Reject_handler p) \<in> set (listeners (elements s e))"
      using assms(6) by (auto simp add: listener_ok_def)
    then show ?thesis by force
  qed
  ultimately show ?thesis
    using assms(5) by (simp add: dispatchEvent_def fold_reject_handlers)
qed

subsection \<open>Failure of the script\<close>

text \<open>
  C7. Take a state that a loader can reach and a promise made by \<open>load\<close> that is pending
  in it. The promise waits for the \<open>load\<close> event of a script element, and when such an
  element signals \<open>error\<close> or \<open>abort\<close> (so before its \<open>load\<close> event was handled for
  this promise), the promise is rejected with that event. The event creates no promise and
  no element, so nothing is tried again; the promise stays rejected whatever happens
  later, and while it is the cached promise every call of \<open>load\<close> returns it and changes
  nothing, so every caller sees the rejection.
\<close>

theorem error_or_abort_rejects:
  assumes "reachable opts s" and "p < next_promise s" and "promises s p = Pending"
  shows "(\<exists>e < next_element s. awaits s p e) \<and>
         (\<forall>e < next_element s. awaits s p e \<longrightarrow>
            (\<forall>ev \<in> {''error'', ''abort''}.
               promises (dispatchEvent e ev s) p = Rejected (Event ev e) \<and>
               next_promise (dispatchEvent e ev s) = next_promise s \<and>
               next_element (dispatchEvent e ev s) = next_element s \<and>
               (\<forall>acts. promises (snd (run opts acts (dispatchEvent e ev s))) p
                         = Rejected (Event ev e)) \<and>
               (cached_promise s = Some p \<longrightarrow>
                  (\<forall>w. load opts w (dispatchEvent e ev s) = (p, dispatchEvent e ev s)))))"
proof (intro conjI allI impI ballI)
  from reachable_invariants [OF assms(1)] have wf: "well_formed s" and li: "listeners_inv s"
    by simp_all
  from li assms(2,3) show "\<exists>e < next_element s. awaits s p e"
    by (simp add: listeners_inv_def)
  fix e ev
  assume e: "e < next_element s" and a: "awaits s p e" and ev: "ev \<in> {''error'', ''abort''}"
  from ev have "ev = ''error'' \<or> ev = ''abort''" by simp
  with wf li e a assms(3)
  show r: "promises (dispatchEvent e ev s) p = Rejected (Event ev e)"
    by (rule dispatch_rejects)
  show "next_promise (dispatchEvent e ev s) = next_promise s" by simp
  show "next_element (dispatchEvent e ev s) = next_element s" by simp
  show "promises (snd (run opts acts (dispatchEvent e ev s))) p = Rejected (Event ev e)" for acts
    using run_settled [of p "dispatchEvent e ev s" opts acts] r assms(2) by simp
  show "load opts w (dispatchEvent e ev s) = (p, dispatchEvent e ev s)"
    if "cached_promise s = Some p" for w
    using that by (simp add: load_cached)
qed

theorem error_or_abort_rejects_witness:
  "reachable default_options (snd (step default_options (Load True) (useScriptTag ''a.js'' empty_document))) \<and>
   0 < next_promise (snd (step default_options (Load True) (useScriptTag ''a.js'' empty_document))) \<and>
   promises (snd (step default_options (Load True) (useScriptTag ''a.js'' empty_document))) 0 = Pending \<and>
   cached_promise (snd (step default_options (Load True) (useScriptTag ''a.js'' empty_document))) = Some 0 \<and>
   0 < next_element (snd (step default_options (Load True) (useScriptTag ''a.js'' empty_document))) \<and>
   awaits (snd (step default_options (Load True) (useScriptTag ''a.js'' empty_document))) 0 0 \<and>
   promises
     (dispatchEvent 0 ''error''
        (snd (step default_options (Load True) (useScriptTag ''a.js'' empty_document)))) 0
     = Rejected (Event ''error'' 0) \<and>
   fst (load default_options True
     (dispatchEvent 0 ''error''
        (snd (step default_options (Load True) (useScriptTag ''a.js'' empty_document))))) = 0"
proof -
  let ?s = "snd (step default_options (Load True) (useScriptTag ''a.js'' empty_document))"
  have "pristine empty_document"
    by (simp add: pristine_def well_formed_def empty_document_def nodes_def)
  then have r: "reachable default_options ?s"
    by (intro reachable_step reachable_init)
  have lt: "0 < next_promise ?s"
    by (simp add: eval_defs)
  have pe: "promises ?s 0 = Pending"
    by (simp add: eval_defs)
  have c: "cached_promise ?s = Some 0"
    by (simp add: eval_defs)
  have e: "0 < next_element ?s"
    by (simp add: eval_defs)
  have a: "awaits ?s 0 0"
    by (simp add: awaits_def eval_defs)
  have ev: "''error'' \<in> {''error'', ''abort''}"
    by simp
  from error_or_abort_rejects [OF r lt pe] e a ev c
  have "promises (dispatchEvent 0 ''error'' ?s) 0 = Rejected (Event ''error'' 0) \<and>
        load default_options True (dispatchEvent 0 ''error'' ?s) = (0, dispatchEvent 0 ''error'' ?s)"
    by blast
  with r lt pe c e a show ?thesis
    by (simp only: fst_conv simp_thms)
qed

section \<open>Properties of useStyleTag\<close>

subsection \<open>What the watcher and the operations change\<close>

lemma set_textContent_fields [simp]:
  "document (set_textContent el v d) = document d"
  "next_element (set_textContent el v d) = next_element d"
  "attributes (elements (set_textContent el v d) e) = attributes (elements d e)"
  "textContent (elements (set_textContent el v d) e) = (if e = el then v else textContent (elements d e))"
  by (simp_all add: set_textContent_def)

lemma set_textContent_style_fields [simp]:
  "css (set_textContent el v s) = css s"
  "isLoaded (set_textContent el v s) = isLoaded s"
  "stop (set_textContent el v s) = stop s"
  "watchers (set_textContent el v s) = watchers s"
  by (simp_all add: set_textContent_def update_element_def)

lemma update_element_style_fields [simp]:
  "css (update_element e f s) = css s"
  "isLoaded (update_element e f s) = isLoaded s"
  "stop (update_element e f s) = stop s"
  "watchers (update_element e f s) = watchers s"
  by (simp_all add: update_element_def)

lemma createElement_style_fields [simp]:
  "css (snd (createElement tag s)) = css s"
  "isLoaded (snd (createElement tag s)) = isLoaded s"
  "stop (snd (createElement tag s)) = stop s"
  "watchers (snd (createElement tag s)) = watchers s"
  by (simp_all add: createElement_def)

lemma run_job_fields [simp]:
  "document (run_job w s) = document s"
  "next_element (run_job w s) = next_element s"
  "attributes (elements (run_job w s) e) = attributes (elements s e)"
  "css (run_job w s) = css s"
  "isLoaded (run_job w s) = isLoaded s"
  "stop (run_job w s) = stop s"
  "watchers (run_job w s) = watchers s"
  by (simp_all add: run_job_def)

lemma fold_run_job_fields [simp]:
  "document (fold run_job ws s) = document s"
  "next_element (fold run_job ws s) = next_element s"
  "attributes (elements (fold run_job ws s) e) = attributes (elements s e)"
  "css (fold run_job ws s) = css s"
  "isLoaded (fold run_job ws s) = isLoaded s"
  "stop (fold run_job ws s) = stop s"
  "watchers (fold run_job ws s) = watchers s"
  by (induction ws arbitrary: s; simp)+

lemma run_job_textContent:
  "textContent (elements (run_job w s) e) =
     (if writes e w then css s else textContent (elements s e))"
  by (auto simp add: run_job_def writes_def)

lemma fold_run_job_textContent:
  "textContent (elements (fold run_job ws s) e) =
     (if \<exists>w \<in> set ws. writes e w then css s else textContent (elements s e))"
  by (induction ws arbitrary: s) (auto simp add: run_job_textContent)

lemma flush_fields [simp]:
  "document (flush s) = document s"
  "next_element (flush s) = next_element s"
  "attributes (elements (flush s) e) = attributes (elements s e)"
  "css (flush s) = css s"
  "isLoaded (flush s) = isLoaded s"
  "stop (flush s) = stop s"
  "watchers (flush s) = map (\<lambda>w. w\<lparr>queued := False\<rparr>) (watchers s)"
  by (simp_all add: flush_def)

lemma flush_textContent:
  "textContent (elements (flush s) e) =
     (if \<exists>w \<in> set (watchers s). writes e w then css s else textContent (elements s e))"
  by (simp add: flush_def fold_run_job_textContent)

lemma set_css_fields [simp]:
  "document (set_css v s) = document s"
  "next_element (set_css v s) = next_element s"
  "elements (set_css v s) = elements s"
  "css (set_css v s) = v"
  "isLoaded (set_css v s) = isLoaded s"
  "stop (set_css v s) = stop s"
  "length (watchers (set_css v s)) = length (watchers s)"
  by (simp_all add: set_css_def)

lemma set_css_watcher:
  assumes "i < length (watchers s)"
  shows "target (watchers (set_css v s) ! i) = target (watchers s ! i)"
    and "active (watchers (set_css v s) ! i) = active (watchers s ! i)"
    and "queued (watchers (set_css v s) ! i) =
           (queued (watchers s ! i) \<or> (v \<noteq> css s \<and> active (watchers s ! i)))"
  using assms by (simp_all add: set_css_def)

lemma getElementById_cong:
  "(\<And>e. attributes (els' e) = attributes (els e)) \<Longrightarrow>
   getElementById els' t v = getElementById els t v"
  by (simp add: getElementById_def getAttribute_def)

lemma getElementById_Some_nodes: "getElementById els t v = Some e \<Longrightarrow> e \<in> set (nodes t)"
  by (auto simp add: getElementById_def find_Some_iff split: if_splits)

lemma style_element_set_css [simp]: "style_element opts (set_css v s) = style_element opts s"
  by (simp add: style_element_def split: option.split)

lemma style_element_flush [simp]: "style_element opts (flush s) = style_element opts s"
  by (simp add: style_element_def getElementById_cong [of "elements (flush s)" "elements s"]
      split: option.split)

lemma style_element_connected: "style_element opts s = Some el \<Longrightarrow> isConnected s el"
  by (auto simp add: style_element_def isConnected_def getElementById_Some_nodes
      split: option.splits)

lemma no_style_outside_head_iff:
  "no_style_outside_head opts d =
     (\<forall>t. document d = Some t \<longrightarrow>
        (\<forall>e \<in> set (body t). getAttribute (elements d e) ''id'' \<noteq> Some (style_id opts)))"
  by (simp add: no_style_outside_head_def list_all_iff split: option.split)

subsection \<open>The watcher of a loaded loader\<close>

lemma watching_flush:
  assumes "watching s i el"
  shows "textContent (elements (flush s) el) = css s" and "watching (flush s) i el"
proof -
  let ?w = "watchers s ! i"
  from assms have i: "i < length (watchers s)" and a: "active ?w" and t: "target ?w = el"
    and q: "queued ?w \<or> textContent (elements s el) = css s"
    and st: "stop s = Some i"
    by (simp_all add: watching_def)
  show tx: "textContent (elements (flush s) el) = css s"
  proof (cases "\<exists>w \<in> set (watchers s). writes el w")
    case True
    then show ?thesis by (simp add: flush_textContent)
  next
    case False
    with i have "\<not> writes el ?w" by (metis nth_mem)
    with a t have "\<not> queued ?w" by (simp add: writes_def)
    with q have "textContent (elements s el) = css s" by simp
    with False show ?thesis by (simp add: flush_textContent)
  qed
  with i a t st show "watching (flush s) i el"
    by (simp add: watching_def)
qed

lemma watching_set_css:
  assumes "watching s i el"
  shows "watching (set_css v s) i el"
proof -
  from assms have i: "i < length (watchers s)" by (simp add: watching_def)
  from assms show ?thesis
    by (auto simp add: watching_def set_css_watcher [OF i])
qed

lemma style_inv_set_css:
  assumes "style_inv opts s"
  shows "style_inv opts (set_css v s)"
proof -
  from assms have wf: "well_formed s" and nb: "no_style_outside_head opts s"
    and act: "\<forall>i < length (watchers s). active (watchers s ! i) \<longrightarrow> isLoaded s \<and> stop s = Some i"
    and ld: "isLoaded s \<longrightarrow> (\<exists>i el. watching s i el \<and> style_element opts s = Some el)"
    by (simp_all add: style_inv_def)
  have "well_formed (set_css v s)"
    using wf by (simp add: well_formed_iff)
  moreover have "no_style_outside_head opts (set_css v s)"
    using nb by (simp add: no_style_outside_head_iff)
  moreover have "\<forall>i < length (watchers (set_css v s)).
      active (watchers (set_css v s) ! i) \<longrightarrow> isLoaded (set_css v s) \<and> stop (set_css v s) = Some i"
    using act by (simp add: set_css_watcher)
  moreover have "isLoaded (set_css v s) \<longrightarrow>
      (\<exists>i el. watching (set_css v s) i el \<and> style_element opts (set_css v s) = Some el)"
    using ld by (auto intro: watching_set_css)
  ultimately show ?thesis
    unfolding style_inv_def by blast
qed

lemma style_inv_flush:
  assumes "style_inv opts s"
  shows "style_inv opts (flush s)"
proof -
  from assms have wf: "well_formed s" and nb: "no_style_outside_head opts s"
    and act: "\<forall>i < length (watchers s). active (watchers s ! i) \<longrightarrow> isLoaded s \<and> stop s = Some i"
    and ld: "isLoaded s \<longrightarrow> (\<exists>i el. watching s i el \<and> style_element opts s = Some el)"
    by (simp_all add: style_inv_def)
  have "well_formed (flush s)"
    using wf by (simp add: well_formed_iff)
  moreover have "no_style_outside_head opts (flush s)"
    using nb by (simp add: no_style_outside_head_iff getAttribute_def)
  moreover have "\<forall>i < length (watchers (flush s)).
      active (watchers (flush s) ! i) \<longrightarrow> isLoaded (flush s) \<and> stop (flush s) = Some i"
    using act by simp
  moreover have "isLoaded (flush s) \<longrightarrow>
      (\<exists>i el. watching (flush s) i el \<and> style_element opts (flush s) = Some el)"
    using ld by (auto intro: watching_flush(2))
  ultimately show ?thesis
    unfolding style_inv_def by blast
qed

subsection \<open>load and unload of the style loader\<close>

lemma getAttribute_setAttribute:
  "getAttribute (setAttribute n v e) m = (if m = n then Some v else getAttribute e m)"
  by (simp add: getAttribute_def setAttribute_def update_conv')

lemma configure_style_id: "getAttribute (configure_style opts e) ''id'' = Some (style_id opts)"
  by (simp add: configure_style_def Let_def getAttribute_setAttribute)

lemma find_append_left_empty: "\<forall>x \<in> set xs. \<not> P x \<Longrightarrow> find P (xs @ zs) = find P zs"
  by (induction xs) simp_all

lemma load_style_no_document: "document s = None \<Longrightarrow> load_style opts s = s"
  by (simp add: load_style_def)

lemma load_style_found:
  assumes "document s = Some t" and "getElementById (elements s) t (style_id opts) = Some e"
  shows "load_style opts s =
           (if isLoaded s then s
            else (set_textContent e (css s) s)
                   \<lparr>watchers := watchers s @
                      [\<lparr>target = e, active = True, queued = False\<rparr>],
                    stop := Some (length (watchers s)), isLoaded := True\<rparr>)"
  using assms getElementById_Some_nodes [OF assms(2)]
  by (simp add: load_style_def isConnected_def watch_def)

lemma load_style_created:
  assumes "well_formed s" and "document s = Some t"
    and "getElementById (elements s) t (style_id opts) = None" and "\<not> isLoaded s"
  shows "load_style opts s =
           (set_textContent (next_element s) (css s)
              ((update_element (next_element s) (configure_style opts)
                  (snd (createElement ''style'' s)))
                 \<lparr>document := Some (appendChild (next_element s) t)\<rparr>))
             \<lparr>watchers := watchers s @
                [\<lparr>target = next_element s, active = True, queued = False\<rparr>],
              stop := Some (length (watchers s)), isLoaded := True\<rparr>"
proof -
  from assms(1,2) have "next_element s \<notin> set (nodes t)"
    by (auto simp add: well_formed_iff)
  with assms(2,3,4) show ?thesis
    by (simp add: load_style_def isConnected_def watch_def createElement_def update_element_def
        set_textContent_def)
qed

lemma style_inv_load_found:
  assumes "style_inv opts s" and "document s = Some t"
    and "getElementById (elements s) t (style_id opts) = Some e"
  shows "style_inv opts (load_style opts s)"
    and "\<not> isLoaded s \<Longrightarrow>
           style_element opts (load_style opts s) = Some e \<and>
           textContent (elements (load_style opts s) e) = css s"
proof -
  let ?s' = "(set_textContent e (css s) s)
               \<lparr>watchers := watchers s @
                  [\<lparr>target = e, active = True, queued = False\<rparr>],
                stop := Some (length (watchers s)), isLoaded := True\<rparr>"
  from assms(1) have wf: "well_formed s" and nb: "no_style_outside_head opts s"
    and act: "\<forall>i < length (watchers s). active (watchers s ! i) \<longrightarrow> isLoaded s \<and> stop s = Some i"
    by (simp_all add: style_inv_def)
  have se: "style_element opts ?s' = Some e"
    using assms(2,3)
    by (simp add: style_element_def
        getElementById_cong [of "elements (set_textContent e (css s) s)" "elements s"])
  have tx: "textContent (elements ?s' e) = css s"
    by simp
  show "\<not> isLoaded s \<Longrightarrow>
           style_element opts (load_style opts s) = Some e \<and>
           textContent (elements (load_style opts s) e) = css s"
    using se tx by (simp add: load_style_found [OF assms(2,3)])
  show "style_inv opts (load_style opts s)"
  proof (cases "isLoaded s")
    case True
    with assms show ?thesis by (simp add: load_style_found)
  next
    case False
    have "well_formed ?s'"
      using wf by (simp add: well_formed_iff)
    moreover have "no_style_outside_head opts ?s'"
      using nb by (simp add: no_style_outside_head_iff getAttribute_def)
    moreover have "watching ?s' (length (watchers s)) e"
      by (simp add: watching_def)
    moreover have "\<forall>i < length (watchers ?s'). active (watchers ?s' ! i) \<longrightarrow>
        isLoaded ?s' \<and> stop ?s' = Some i"
      using act False by (auto simp add: nth_append less_Suc_eq)
    ultimately have "style_inv opts ?s'"
      using se unfolding style_inv_def by blast
    with False show ?thesis
      by (simp add: load_style_found [OF assms(2,3)])
  qed
qed

lemma style_inv_load_created:
  assumes "style_inv opts s" and "document s = Some t"
    and "getElementById (elements s) t (style_id opts) = None" and "style_id opts \<noteq> []"
  shows "style_inv opts (load_style opts s)"
    and "style_element opts (load_style opts s) = Some (next_element s) \<and>
         textContent (elements (load_style opts s) (next_element s)) = css s"
proof -
  let ?n = "next_element s"
  let ?s' = "(set_textContent ?n (css s)
              ((update_element ?n (configure_style opts) (snd (createElement ''style'' s)))
                 \<lparr>document := Some (appendChild ?n t)\<rparr>))
             \<lparr>watchers := watchers s @
                [\<lparr>target = ?n, active = True, queued = False\<rparr>],
              stop := Some (length (watchers s)), isLoaded := True\<rparr>"
  from assms(1) have wf: "well_formed s" and nb: "no_style_outside_head opts s"
    and act: "\<forall>i < length (watchers s). active (watchers s ! i) \<longrightarrow> isLoaded s \<and> stop s = Some i"
    and ld: "isLoaded s \<longrightarrow> (\<exists>el. style_element opts s = Some el)"
    by (auto simp add: style_inv_def)
  from ld assms(2,3) have nl: "\<not> isLoaded s"
    by (simp add: style_element_def)
  note eq = load_style_created [OF wf assms(2,3) nl]
  from wf assms(2) have t: "distinct (nodes t)" "\<forall>e \<in> set (nodes t). e < ?n"
    by (simp_all add: well_formed_iff)
  then have fresh: "?n \<notin> set (head t)" "?n \<notin> set (body t)"
    by (auto simp add: nodes_def)
  then have ap: "appendChild ?n t = \<lparr>head = head t @ [?n], body = body t\<rparr>"
    by (simp add: appendChild_def)
  have els: "attributes (elements ?s' e) = attributes (elements s e)" if "e \<noteq> ?n" for e
    using that by (simp add: createElement_def update_element_def)
  have "attributes (elements ?s' ?n) =
          attributes (configure_style opts
            \<lparr>localName = ''style'', attributes = [], textContent = [], listeners = []\<rparr>)"
    by (simp add: createElement_def update_element_def)
  then have idn: "getAttribute (elements ?s' ?n) ''id'' = Some (style_id opts)"
    using configure_style_id [of opts] by (simp add: getAttribute_def)
  have "well_formed ?s'"
    using appendChild_fresh [OF t] by (simp add: well_formed_iff createElement_def)
  moreover have "no_style_outside_head opts ?s'"
    using nb assms(2) fresh(2)
    by (auto simp add: no_style_outside_head_iff ap getAttribute_def createElement_def
        update_element_def)
  moreover have se: "style_element opts ?s' = Some ?n"
  proof -
    from assms(3,4) have none:
      "\<forall>e \<in> set (nodes t). getAttribute (elements s e) ''id'' \<noteq> Some (style_id opts)"
      by (simp add: getElementById_def find_None_iff)
    have "\<forall>e \<in> set (head t). \<not> getAttribute (elements ?s' e) ''id'' = Some (style_id opts)"
    proof
      fix e assume e: "e \<in> set (head t)"
      with fresh have "e \<noteq> ?n" by auto
      from els [OF this] none e show "\<not> getAttribute (elements ?s' e) ''id'' = Some (style_id opts)"
        by (simp add: getAttribute_def nodes_def)
    qed
    then have "find (\<lambda>e. getAttribute (elements ?s' e) ''id'' = Some (style_id opts))
                 (head t @ ?n # body t) = Some ?n"
      using idn by (simp add: find_append_left_empty)
    then show ?thesis
      using assms(4) by (simp add: style_element_def getElementById_def nodes_def ap)
  qed
  moreover have tx: "textContent (elements ?s' ?n) = css s"
    by (simp add: createElement_def update_element_def)
  moreover have "watching ?s' (length (watchers s)) ?n"
    by (simp add: watching_def createElement_def update_element_def)
  moreover have "\<forall>i < length (watchers ?s'). active (watchers ?s' ! i) \<longrightarrow>
      isLoaded ?s' \<and> stop ?s' = Some i"
    using act nl by (auto simp add: nth_append less_Suc_eq)
  ultimately have "style_inv opts ?s'"
    unfolding style_inv_def by blast
  then show "style_inv opts (load_style opts s)"
    by (simp only: eq)
  from se tx show "style_element opts (load_style opts s) = Some (next_element s) \<and>
         textContent (elements (load_style opts s) (next_element s)) = css s"
    by (simp only: eq simp_thms)
qed

lemma style_inv_load:
  assumes "style_inv opts s" and "style_id opts \<noteq> []"
  shows "style_inv opts (load_style opts s)"
proof (cases "document s")
  case None
  with assms(1) show ?thesis by (simp add: load_style_no_document)
next
  case (Some t)
  show ?thesis
  proof (cases "getElementById (elements s) t (style_id opts)")
    case None
    from assms(1) Some None assms(2) show ?thesis by (rule style_inv_load_created(1))
  next
    case e: (Some e)
    from assms(1) Some e show ?thesis by (rule style_inv_load_found(1))
  qed
qed

lemma load_style_loaded:
  assumes "style_inv opts s" and "document s \<noteq> None" and "style_id opts \<noteq> []"
  shows "isLoaded (load_style opts s)"
    and "\<not> isLoaded s \<Longrightarrow>
           \<exists>el. style_element opts (load_style opts s) = Some el \<and>
                textContent (elements (load_style opts s) el) = css s"
proof -
  from assms(2) obtain t where t: "document s = Some t" by auto
  from assms(1) have wf: "well_formed s"
    and ld: "isLoaded s \<longrightarrow> (\<exists>el. style_element opts s = Some el)"
    by (auto simp add: style_inv_def)
  show "isLoaded (load_style opts s)"
  proof (cases "getElementById (elements s) t (style_id opts)")
    case None
    with ld t have "\<not> isLoaded s" by (simp add: style_element_def)
    from load_style_created [OF wf t None this] show ?thesis by simp
  next
    case (Some e)
    then show ?thesis by (simp add: load_style_found [OF t Some])
  qed
  show "\<exists>el. style_element opts (load_style opts s) = Some el \<and>
             textContent (elements (load_style opts s) el) = css s"
    if "\<not> isLoaded s"
  proof (cases "getElementById (elements s) t (style_id opts)")
    case None
    from style_inv_load_created(2) [OF assms(1) t None assms(3)] show ?thesis by blast
  next
    case (Some e)
    from style_inv_load_found(2) [OF assms(1) t Some that] show ?thesis by blast
  qed
qed

lemma unload_style_idle:
  "document s = None \<or> \<not> isLoaded s \<Longrightarrow> unload_style opts s = (None, s)"
  by (auto simp add: unload_style_def split: option.split)

lemma unload_style_loaded:
  assumes "style_inv opts s" and "isLoaded s"
  shows "\<exists>i el t. watching s i el \<and> document s = Some t \<and> style_element opts s = Some el \<and>
           el \<in> set (head t) \<and>
           unload_style opts s =
             (None, s\<lparr>watchers := (watchers s)[i := (watchers s ! i)\<lparr>active := False\<rparr>],
                      document := Some (t\<lparr>head := remove1 el (head t)\<rparr>), isLoaded := False\<rparr>)"
proof -
  from assms obtain i el where w: "watching s i el" "style_element opts s = Some el"
    by (auto simp add: style_inv_def)
  from w(1) have i: "stop s = Some i" "i < length (watchers s)"
    by (simp_all add: watching_def)
  from w(2) obtain t where t: "document s = Some t"
      "getElementById (elements s) t (style_id opts) = Some el"
    by (auto simp add: style_element_def split: option.splits)
  from t(2) have id: "getAttribute (elements s el) ''id'' = Some (style_id opts)"
    and n: "el \<in> set (nodes t)"
    by (auto simp add: getElementById_def find_Some_iff split: if_splits)
  from assms(1) t(1) id have "el \<notin> set (body t)"
    by (auto simp add: style_inv_def no_style_outside_head_iff)
  with n have h: "el \<in> set (head t)" by (simp add: nodes_def)
  have "unload_style opts s =
          (None, s\<lparr>watchers := (watchers s)[i := (watchers s ! i)\<lparr>active := False\<rparr>],
                   document := Some (t\<lparr>head := remove1 el (head t)\<rparr>), isLoaded := False\<rparr>)"
    using assms(2) i t h
    by (simp add: unload_style_def stop_watcher_def removeChild_def)
  with w t(1) h show ?thesis by blast
qed

lemma style_inv_unload:
  assumes "style_inv opts s"
  shows "style_inv opts (snd (unload_style opts s))"
proof (cases "document s = None \<or> \<not> isLoaded s")
  case True
  with assms show ?thesis by (simp add: unload_style_idle)
next
  case False
  then have l: "isLoaded s" by simp
  from unload_style_loaded [OF assms l] obtain i el t where
    w: "watching s i el"
    and t: "document s = Some t" "el \<in> set (head t)"
    and u: "unload_style opts s =
             (None, s\<lparr>watchers := (watchers s)[i := (watchers s ! i)\<lparr>active := False\<rparr>],
                      document := Some (t\<lparr>head := remove1 el (head t)\<rparr>), isLoaded := False\<rparr>)"
    by blast
  let ?s' = "s\<lparr>watchers := (watchers s)[i := (watchers s ! i)\<lparr>active := False\<rparr>],
               document := Some (t\<lparr>head := remove1 el (head t)\<rparr>), isLoaded := False\<rparr>"
  from w have st: "stop s = Some i" by (simp add: watching_def)
  from assms have wf: "well_formed s" and nb: "no_style_outside_head opts s"
    and act: "\<forall>i < length (watchers s). active (watchers s ! i) \<longrightarrow> isLoaded s \<and> stop s = Some i"
    by (simp_all add: style_inv_def)
  from wf t(1) have "distinct (nodes t)" "\<forall>e \<in> set (nodes t). e < next_element s"
    by (simp_all add: well_formed_iff)
  then have "well_formed ?s'"
    by (auto simp add: well_formed_iff nodes_def dest: notin_set_remove1)
  moreover have "no_style_outside_head opts ?s'"
    using nb t(1) by (simp add: no_style_outside_head_iff)
  moreover have "\<not> active (watchers ?s' ! j)" if "j < length (watchers ?s')" for j
    using that act st by (cases "j = i") auto
  ultimately have "style_inv opts ?s'"
    by (simp add: style_inv_def)
  with u show ?thesis by simp
qed

lemma style_reachable_inv:
  assumes "style_reachable opts s" and "style_id opts \<noteq> []"
  shows "style_inv opts s"
  using assms(1)
proof (induction rule: style_reachable.induct)
  case (style_init d v)
  then show ?case
    by (simp add: style_inv_def useStyleTag_def well_formed_iff no_style_outside_head_iff)
next
  case (style_next s a)
  then show ?case
    by (cases a)
      (simp_all add: style_inv_load [OF _ assms(2)] style_inv_unload style_inv_set_css
        style_inv_flush)
qed

lemma stopped_flush_textContent:
  assumes "\<forall>w \<in> set (watchers s). \<not> active w"
  shows "textContent (elements (flush (set_css v s)) e) = textContent (elements s e)"
proof -
  from assms have "\<not> (\<exists>w \<in> set (watchers (set_css v s)). writes e w)"
    by (auto simp add: set_css_def writes_def)
  then show ?thesis
    by (simp add: flush_textContent)
qed

subsection \<open>From load to unload\<close>

text \<open>
  C8, as amended. Take a style loader with an id that is not empty, which started in a
  document where no element outside \<open>head\<close> has that id, in any state it can reach by
  calls of \<open>load\<close> and \<open>unload\<close>, assignments to \<open>css\<close> and runs of the scheduler,
  and let there be a host document. Then \<open>load\<close> leaves the loader loaded, and a
  \<open>load\<close> of a loader that was not loaded leaves its style element in the document with
  the current value of \<open>css\<close> as its text. While the loader is loaded, an assignment to
  \<open>css\<close> leaves the text of the style element as it is, and the run of the scheduler
  that follows makes it the value of \<open>css\<close>. \<open>unload\<close> returns normally, removes the
  style element from the document, sets \<open>isLoaded\<close> to \<open>false\<close> and stops the watcher:
  no watcher is active any more, and no assignment to \<open>css\<close> and no run of the scheduler
  after it changes the text of the element.
\<close>

theorem style_tag_lifecycle:
  assumes "style_reachable opts s" and "style_id opts \<noteq> []" and "document s \<noteq> None"
  shows "isLoaded (load_style opts s) \<and>
         (\<not> isLoaded s \<longrightarrow>
            (\<exists>el. style_element opts (load_style opts s) = Some el \<and>
                  isConnected (load_style opts s) el \<and>
                  textContent (elements (load_style opts s) el) = css s)) \<and>
         (isLoaded s \<longrightarrow>
            (\<exists>el. style_element opts s = Some el \<and>
                  textContent (elements (flush s) el) = css s \<and>
                  (\<forall>v. textContent (elements (set_css v s) el) = textContent (elements s el) \<and>
                       textContent (elements (flush (set_css v s)) el) = v) \<and>
                  fst (unload_style opts s) = None \<and>
                  \<not> isLoaded (snd (unload_style opts s)) \<and>
                  \<not> isConnected (snd (unload_style opts s)) el \<and>
                  (\<forall>w \<in> set (watchers (snd (unload_style opts s))). \<not> active w) \<and>
                  (\<forall>v. textContent (elements (flush (set_css v (snd (unload_style opts s)))) el)
                         = textContent (elements s el))))"
proof (intro conjI impI)
  from assms(1,2) have inv: "style_inv opts s" by (rule style_reachable_inv)
  from inv assms(3,2) show "isLoaded (load_style opts s)" by (rule load_style_loaded(1))
next
  assume nl: "\<not> isLoaded s"
  from assms(1,2) have inv: "style_inv opts s" by (rule style_reachable_inv)
  from load_style_loaded(2) [OF inv assms(3,2) nl] obtain el where
    el: "style_element opts (load_style opts s) = Some el"
      "textContent (elements (load_style opts s) el) = css s"
    by blast
  from el(1) have "isConnected (load_style opts s) el" by (rule style_element_connected)
  with el show "\<exists>el. style_element opts (load_style opts s) = Some el \<and>
                  isConnected (load_style opts s) el \<and>
                  textContent (elements (load_style opts s) el) = css s"
    by blast
next
  assume l: "isLoaded s"
  from assms(1,2) have inv: "style_inv opts s" by (rule style_reachable_inv)
  from unload_style_loaded [OF inv l] obtain i el t where
    w: "watching s i el"
    and t: "document s = Some t" "style_element opts s = Some el" "el \<in> set (head t)"
    and u: "unload_style opts s =
             (None, s\<lparr>watchers := (watchers s)[i := (watchers s ! i)\<lparr>active := False\<rparr>],
                      document := Some (t\<lparr>head := remove1 el (head t)\<rparr>), isLoaded := False\<rparr>)"
    by blast
  let ?s' = "s\<lparr>watchers := (watchers s)[i := (watchers s ! i)\<lparr>active := False\<rparr>],
               document := Some (t\<lparr>head := remove1 el (head t)\<rparr>), isLoaded := False\<rparr>"
  from w have st: "stop s = Some i" by (simp add: watching_def)
  from w have flushed: "textContent (elements (flush s) el) = css s"
    by (rule watching_flush(1))
  have kept: "textContent (elements (set_css v s) el) = textContent (elements s el)" for v
    by simp
  have pushed: "textContent (elements (flush (set_css v s)) el) = v" for v
    using watching_flush(1) [OF watching_set_css [OF w, of v]] by simp
  from inv t(1) have dn: "distinct (nodes t)"
    by (simp add: style_inv_def well_formed_iff)
  with t(3) have gone: "el \<notin> set (remove1 el (head t))" "el \<notin> set (body t)"
    by (auto simp add: nodes_def)
  from inv have act: "\<forall>i < length (watchers s). active (watchers s ! i) \<longrightarrow> stop s = Some i"
    by (simp add: style_inv_def)
  have idle: "\<forall>w \<in> set (watchers ?s'). \<not> active w"
  proof
    fix x assume "x \<in> set (watchers ?s')"
    then obtain j where j: "j < length (watchers s)"
        "x = (watchers s)[i := (watchers s ! i)\<lparr>active := False\<rparr>] ! j"
      by (auto simp add: in_set_conv_nth)
    show "\<not> active x"
    proof (cases "j = i")
      case True
      with j show ?thesis by simp
    next
      case False
      with j act st show ?thesis by auto
    qed
  qed
  have stopped: "textContent (elements (flush (set_css v ?s')) el) = textContent (elements s el)"
    for v
    using stopped_flush_textContent [OF idle, of v el] by simp
  have "fst (unload_style opts s) = None" "\<not> isLoaded (snd (unload_style opts s))"
    "\<not> isConnected (snd (unload_style opts s)) el"
    using gone by (simp_all add: u isConnected_def nodes_def)
  moreover have "\<forall>w \<in> set (watchers (snd (unload_style opts s))). \<not> active w"
    using idle by (simp only: u snd_conv)
  moreover have "\<forall>v. textContent (elements (flush (set_css v (snd (unload_style opts s)))) el)
                         = textContent (elements s el)"
    using stopped by (simp only: u snd_conv simp_thms)
  ultimately show "\<exists>el. style_element opts s = Some el \<and>
                  textContent (elements (flush s) el) = css s \<and>
                  (\<forall>v. textContent (elements (set_css v s) el) = textContent (elements s el) \<and>
                       textContent (elements (flush (set_css v s)) el) = v) \<and>
                  fst (unload_style opts s) = None \<and>
                  \<not> isLoaded (snd (unload_style opts s)) \<and>
                  \<not> isConnected (snd (unload_style opts s)) el \<and>
                  (\<forall>w \<in> set (watchers (snd (unload_style opts s))). \<not> active w) \<and>
                  (\<forall>v. textContent (elements (flush (set_css v (snd (unload_style opts s)))) el)
                         = textContent (elements s el))"
    using t(2) flushed kept pushed by blast
qed

subsection \<open>Running the style loader on the example inputs\<close>

lemmas style_eval_defs =
  load_style_def unload_style_def set_css_def flush_def run_job_def watch_def stop_watcher_def
  set_textContent_def configure_style_def getElementById_def style_element_def useStyleTag_def
  example_style_options_def empty_id_options_def page_with_style_in_body_def
  getAttribute_def setAttribute_def truthy_def nodes_def
  createElement_def update_element_def appendChild_def removeChild_def isConnected_def
  empty_document_def no_document_def empty_element_def split_beta Let_def

theorem style_tag_lifecycle_witness:
  "style_reachable example_style_options (useStyleTag ''a{}'' empty_document) \<and>
   style_id example_style_options \<noteq> [] \<and>
   document (useStyleTag ''a{}'' empty_document) \<noteq> None \<and>
   \<not> isLoaded (useStyleTag ''a{}'' empty_document) \<and>
   isLoaded (load_style example_style_options (useStyleTag ''a{}'' empty_document)) \<and>
   style_element example_style_options
     (load_style example_style_options (useStyleTag ''a{}'' empty_document)) = Some 0 \<and>
   textContent (elements (load_style example_style_options (useStyleTag ''a{}'' empty_document)) 0)
     = ''a{}'' \<and>
   textContent
     (elements (set_css ''b{}''
        (load_style example_style_options (useStyleTag ''a{}'' empty_document))) 0) = ''a{}'' \<and>
   textContent
     (elements (flush (set_css ''b{}''
        (load_style example_style_options (useStyleTag ''a{}'' empty_document)))) 0) = ''b{}'' \<and>
   \<not> isLoaded (snd (unload_style example_style_options
        (load_style example_style_options (useStyleTag ''a{}'' empty_document)))) \<and>
   \<not> isConnected (snd (unload_style example_style_options
        (load_style example_style_options (useStyleTag ''a{}'' empty_document)))) 0"
proof -
  let ?u = "useStyleTag ''a{}'' empty_document"
  let ?s = "load_style example_style_options ?u"
  have "well_formed empty_document" and "no_style_outside_head example_style_options empty_document"
    by (simp_all add: well_formed_def no_style_outside_head_def empty_document_def nodes_def)
  then have r0: "style_reachable example_style_options ?u"
    by (rule style_init)
  then have "style_reachable example_style_options (style_step example_style_options Load_style ?u)"
    by (rule style_next)
  then have r: "style_reachable example_style_options ?s"
    by simp
  have i: "style_id example_style_options \<noteq> []"
    by (simp add: example_style_options_def)
  have d0: "document ?u \<noteq> None" and n0: "\<not> isLoaded ?u" and c0: "css ?u = ''a{}''"
    by (simp_all add: useStyleTag_def empty_document_def)
  have e: "style_element example_style_options ?s = Some 0"
    by (simp add: style_eval_defs)
  have d: "document ?s \<noteq> None"
    by (simp add: style_eval_defs)
  from style_tag_lifecycle [OF r0 i d0] n0 e c0
  have l: "isLoaded ?s" and tx: "textContent (elements ?s 0) = ''a{}''"
    by auto
  from style_tag_lifecycle [OF r i d] l e tx
  have "textContent (elements (set_css ''b{}'' ?s) 0) = ''a{}'' \<and>
        textContent (elements (flush (set_css ''b{}'' ?s)) 0) = ''b{}'' \<and>
        \<not> isLoaded (snd (unload_style example_style_options ?s)) \<and>
        \<not> isConnected (snd (unload_style example_style_options ?s)) 0"
    by auto
  with r0 i d0 n0 l e tx show ?thesis
    by (simp only: simp_thms)
qed

text \<open>
  As stated, C8 fails in four ways. Without a host document \<open>load\<close> does nothing: no
  value is applied, the loader is not loaded, and there is no style element. With the
  empty string as id, \<open>unload\<close> finds no element to remove and throws, the style element
  stays in the document and the loader stays loaded. With an element that has the id
  outside \<open>head\<close>, \<open>load\<close> adopts that element, and \<open>unload\<close> throws as well. And a
  change of \<open>css\<close> is not in the text of the style element before the scheduler has
  run, and never gets there when \<open>unload\<close> is called first.
\<close>

theorem load_style_without_document:
  "load_style example_style_options (useStyleTag ''a{}'' no_document)
     = useStyleTag ''a{}'' no_document \<and>
   \<not> isLoaded (load_style example_style_options (useStyleTag ''a{}'' no_document)) \<and>
   style_element example_style_options
     (load_style example_style_options (useStyleTag ''a{}'' no_document)) = None \<and>
   isLoaded (load_style empty_id_options (useStyleTag ''a{}'' empty_document)) \<and>
   fst (unload_style empty_id_options
          (load_style empty_id_options (useStyleTag ''a{}'' empty_document))) = Some TypeError \<and>
   isLoaded (snd (unload_style empty_id_options
          (load_style empty_id_options (useStyleTag ''a{}'' empty_document)))) \<and>
   isConnected (snd (unload_style empty_id_options
          (load_style empty_id_options (useStyleTag ''a{}'' empty_document)))) 0 \<and>
   isLoaded (load_style example_style_options (useStyleTag ''a{}'' page_with_style_in_body)) \<and>
   fst (unload_style example_style_options
          (load_style example_style_options (useStyleTag ''a{}'' page_with_style_in_body)))
     = Some NotFoundError \<and>
   isConnected (snd (unload_style example_style_options
          (load_style example_style_options (useStyleTag ''a{}'' page_with_style_in_body)))) 0 \<and>
   isLoaded (style_run example_style_options [Load_style, Set_css ''b{}'']
          (useStyleTag ''a{}'' empty_document)) \<and>
   css (style_run example_style_options [Load_style, Set_css ''b{}'']
          (useStyleTag ''a{}'' empty_document)) = ''b{}'' \<and>
   textContent (elements (style_run example_style_options [Load_style, Set_css ''b{}'']
          (useStyleTag ''a{}'' empty_document)) 0) = ''a{}'' \<and>
   css (style_run example_style_options [Load_style, Set_css ''b{}'', Unload_style, Flush]
          (useStyleTag ''a{}'' empty_document)) = ''b{}'' \<and>
   textContent (elements
       (style_run example_style_options [Load_style, Set_css ''b{}'', Unload_style, Flush]
          (useStyleTag ''a{}'' empty_document)) 0) = ''a{}''"
  by (simp add: style_eval_defs)

section \<open>Properties of the directive\<close>

text \<open>
  C9, as amended. On attach the directive calls \<open>onClickOutside\<close> once, with the element
  and the handler of the binding, and changes nothing else but the stop function stored on
  the element, which is the one the call returned. For a handler alone, the options of the
  call have the one property \<open>capture\<close>, which is \<open>true\<close> if and only if the modifier
  \<open>bubble\<close> is not set; for a handler with options, every property of the options of the
  binding is passed on as it is, and \<open>capture\<close> is added as \<open>!bubble\<close> when the
  options have no \<open>capture\<close> of their own. On detach exactly the stored function is
  called, once.
\<close>

theorem directive_mounted_unmounted:
  "(\<exists>passed.
      mounted el b s =
        s\<lparr>registrations := registrations s @ [(el, handler_of b, passed)],
          stored_stop := (stored_stop s)(el := Some (length (registrations s)))\<rparr> \<and>
      (\<forall>k. map_of passed k =
         (case bvalue b of
            Handler h \<Rightarrow> (if k = ''capture'' then Some (Boolean (\<not> bubble b)) else None)
          | Handler_with_options h opts \<Rightarrow>
              (case map_of opts k of
                 Some v \<Rightarrow> Some v
               | None \<Rightarrow> (if k = ''capture'' then Some (Boolean (\<not> bubble b)) else None))))) \<and>
   registered_capture (mounted el b s) = Some (expected_capture b) \<and>
   unmounted el (mounted el b s)
     = (None, (mounted el b s)\<lparr>stop_calls := stop_calls s @ [length (registrations s)]\<rparr>)"
proof (cases "bvalue b")
  case (Handler h)
  then have m: "mounted el b s =
      s\<lparr>registrations := registrations s @ [(el, handler_of b, [(''capture'', Boolean (\<not> bubble b))])],
        stored_stop := (stored_stop s)(el := Some (length (registrations s)))\<rparr>"
    by (simp add: mounted_def onClickOutside_def handler_of_def)
  have "\<forall>k. map_of [(''capture'', Boolean (\<not> bubble b))] k =
      (case bvalue b of
            Handler h \<Rightarrow> (if k = ''capture'' then Some (Boolean (\<not> bubble b)) else None)
          | Handler_with_options h opts \<Rightarrow>
              (case map_of opts k of
                 Some v \<Rightarrow> Some v
               | None \<Rightarrow> (if k = ''capture'' then Some (Boolean (\<not> bubble b)) else None)))"
    by (simp add: Handler)
  moreover have "registered_capture (mounted el b s) = Some (expected_capture b)"
    by (simp add: m registered_capture_def expected_capture_def Handler)
  moreover have "unmounted el (mounted el b s)
     = (None, (mounted el b s)\<lparr>stop_calls := stop_calls s @ [length (registrations s)]\<rparr>)"
    by (simp add: m unmounted_def)
  ultimately show ?thesis
    using m by blast
next
  case (Handler_with_options h opts)
  let ?p = "object_assign [(''capture'', Boolean (\<not> bubble b))] opts"
  from Handler_with_options have m: "mounted el b s =
      s\<lparr>registrations := registrations s @ [(el, handler_of b, ?p)],
        stored_stop := (stored_stop s)(el := Some (length (registrations s)))\<rparr>"
    by (simp add: mounted_def onClickOutside_def handler_of_def)
  have p: "\<forall>k. map_of ?p k =
      (case bvalue b of
            Handler h \<Rightarrow> (if k = ''capture'' then Some (Boolean (\<not> bubble b)) else None)
          | Handler_with_options h opts \<Rightarrow>
              (case map_of opts k of
                 Some v \<Rightarrow> Some v
               | None \<Rightarrow> (if k = ''capture'' then Some (Boolean (\<not> bubble b)) else None)))"
    by (simp add: Handler_with_options object_assign_def AList.merge_conv' map_add_def
        split: option.split)
  moreover have "registered_capture (mounted el b s) = Some (expected_capture b)"
    by (simp add: m registered_capture_def expected_capture_def Handler_with_options
        object_assign_def AList.merge_conv' map_add_def split: option.split)
  moreover have "unmounted el (mounted el b s)
     = (None, (mounted el b s)\<lparr>stop_calls := stop_calls s @ [length (registrations s)]\<rparr>)"
    by (simp add: m unmounted_def)
  ultimately show ?thesis
    using m by blast
qed

text \<open>
  As stated, C9 fails: with the modifier \<open>bubble\<close> not set and the options
  \<open>{ capture: false }\<close>, the handler is registered with \<open>capture\<close> \<open>false\<close>.
\<close>

theorem options_override_capture:
  "bubble \<lparr>bvalue = Handler_with_options (0::nat) [(''capture'', Boolean False)], modifiers = []\<rparr>
     = False \<and>
   registered_capture
     (mounted 0 \<lparr>bvalue = Handler_with_options (0::nat) [(''capture'', Boolean False)], modifiers = []\<rparr>
        no_bindings) = Some (Boolean False)"
  by (simp add: mounted_def onClickOutside_def registered_capture_def bubble_def
      object_assign_def no_bindings_def)

end
